theory Spec2Isabelle
  imports Main "HOL-Library.Char_ord" "HOL-Library.List_Lexorder" "HOL-Library.Multiset"
begin

section \<open>The catalog downloader (data.py)\<close>

subsection \<open>Exceptions\<close>

text \<open>
  The exceptions that can travel through \<^verbatim>\<open>download_geojson_files\<close>.
  \<^verbatim>\<open>requests.RequestException\<close> stands for the whole family raised by the HTTP library
  (connection errors, timeouts, and the \<^verbatim>\<open>HTTPError\<close> of \<^verbatim>\<open>raise_for_status\<close>);
  \<^verbatim>\<open>OSError\<close> is what \<^verbatim>\<open>os.makedirs\<close> and \<^verbatim>\<open>open\<close> raise;
  \<^verbatim>\<open>KeyboardInterrupt\<close> is the user's Ctrl+C; \<open>OtherException\<close> is any other subclass of
  \<^verbatim>\<open>Exception\<close>. \<^verbatim>\<open>KeyboardInterrupt\<close> is not a subclass of \<^verbatim>\<open>Exception\<close>, and
  \<^verbatim>\<open>OSError\<close> is not a subclass of \<^verbatim>\<open>RequestException\<close>.
\<close>

datatype exn = RequestException | OSError | KeyboardInterrupt | OtherException

subsection \<open>Catalog entries\<close>

text \<open>
  One value of the dictionary \<^verbatim>\<open>geojson_files\<close>: the keys \<^verbatim>\<open>"download"\<close>,
  \<^verbatim>\<open>"directory"\<close> and \<^verbatim>\<open>"save_as"\<close> are always present, \<^verbatim>\<open>"should_overwrite"\<close> is
  optional. The dictionary itself is an association list in insertion order, keyed by the
  source file name.
\<close>

record config =
  download :: bool
  directory :: string
  save_as :: string
  should_overwrite :: "bool option"

type_synonym catalog = "(string \<times> config) list"

subsection \<open>The environment: file system and network\<close>

text \<open>
  The file system as the script sees it: the content of every regular file, by path, and
  the set of directories. Paths are compared as strings.
\<close>

record filesystem =
  file_content :: "string \<rightharpoonup> string"
  directories :: "string set"

record response =
  status_code :: nat
  content :: string

text \<open>
  What the script cannot decide: the outcome of \<^verbatim>\<open>requests.get\<close> for a URL (an exception
  or a response; a Ctrl+C that arrives while the request is under way is the exception
  \<^verbatim>\<open>KeyboardInterrupt\<close>), and the paths on which the operating system refuses to create a
  directory or to open a file for writing (a missing permission, a full disk, a directory
  where a file is expected).
\<close>

record env =
  get :: "string \<Rightarrow> exn + response"
  mkdir_fault :: "string \<Rightarrow> bool"
  open_fault :: "string \<Rightarrow> bool"

text \<open>
  \<^verbatim>\<open>Response.raise_for_status()\<close> of the requests library raises \<^verbatim>\<open>HTTPError\<close> for the
  client-error and server-error status codes, that is for \<open>400 \<le> status < 600\<close>, and for no
  other status.
\<close>

definition raise_for_status :: "response \<Rightarrow> bool" where
  "raise_for_status r \<longleftrightarrow> 400 \<le> status_code r \<and> status_code r < 600"

text \<open>\<^verbatim>\<open>os.path.join(a, b)\<close> on a POSIX system.\<close>

definition os_path_join :: "string \<Rightarrow> string \<Rightarrow> string" where
  "os_path_join a b =
     (if b \<noteq> [] \<and> hd b = CHR ''/'' then b
      else if a = [] \<or> last a = CHR ''/'' then a @ b
      else a @ ''/'' @ b)"

definition os_path_exists :: "filesystem \<Rightarrow> string \<Rightarrow> bool" where
  "os_path_exists d p \<longleftrightarrow> p \<in> dom (file_content d) \<or> p \<in> directories d"

text \<open>The path itself and every leading part of it that ends before a separator.\<close>

definition path_prefixes :: "string \<Rightarrow> string list" where
  "path_prefixes p = [take i p. i \<leftarrow> [1..<length p], p ! i = CHR ''/''] @ [p]"

text \<open>
  \<^verbatim>\<open>os.makedirs(directory, exist_ok=True)\<close>: nothing happens, and nothing is raised, when the
  directory exists; otherwise the directory is created with its missing parents, unless the
  operating system refuses.
\<close>

definition makedirs :: "env \<Rightarrow> string \<Rightarrow> filesystem \<Rightarrow> exn + filesystem" where
  "makedirs E p d =
     (if p \<in> directories d then Inr d
      else if mkdir_fault E p then Inl OSError
      else Inr (d\<lparr>directories := directories d \<union> set (path_prefixes p)\<rparr>))"

text \<open>
  \<^verbatim>\<open>with open(filepath, 'wb') as f: f.write(data)\<close>: the file holds exactly the data
  afterwards, unless the operating system refuses to open the path, which raises and leaves
  the file as it was.
\<close>

definition write_file :: "env \<Rightarrow> string \<Rightarrow> string \<Rightarrow> filesystem \<Rightarrow> exn + filesystem" where
  "write_file E p data d =
     (if open_fault E p then Inl OSError
      else Inr (d\<lparr>file_content := (file_content d)(p \<mapsto> data)\<rparr>))"

subsection \<open>Console output\<close>

text \<open>
  The lines the script prints, one constructor per \<^verbatim>\<open>print\<close> statement, carrying the
  values interpolated into the line. A file size is kept in bytes (the script prints it in
  megabytes with two decimals).
\<close>

datatype category = Coastline | Land_Ocean | Administrative | Water_feature | Plain_file

datatype line =
    Starting_download nat
  | Base_directory
  | Organized_by_category
  | Created_directory string
  | Skip_line nat nat string
  | Downloading_line nat nat string
  | Success_line category nat
  | Error_failed_to_download
  | Download_complete
  | Success_summary nat nat
  | Failed_summary nat
  | Failed_item string
  | Organized_under
  | Directory_structure_created
  | Directory_item string nat
  | Key_coastline_files
  | Coastline_success string
  | Coastline_missing string
  | Complete_banner
  | All_finished
  | Process_interrupted
  | Unexpected_error exn
  | Exiting

text \<open>\<^verbatim>\<open>needle in haystack\<close> on strings.\<close>

fun startswith :: "string \<Rightarrow> string \<Rightarrow> bool" where
  "startswith s [] = True"
| "startswith [] (c # cs) = False"
| "startswith (x # xs) (c # cs) = (x = c \<and> startswith xs cs)"

fun contains :: "string \<Rightarrow> string \<Rightarrow> bool" where
  "contains [] needle = (needle = [])"
| "contains (x # xs) needle = (startswith (x # xs) needle \<or> contains xs needle)"

definition category_of :: "string \<Rightarrow> category" where
  "category_of filename =
     (if contains filename ''coastline'' then Coastline
      else if contains filename ''land'' \<or> contains filename ''ocean'' then Land_Ocean
      else if contains filename ''admin'' then Administrative
      else if contains filename ''lake'' \<or> contains filename ''river'' then Water_feature
      else Plain_file)"

subsection \<open>The run state and the loop\<close>

text \<open>
  The local variables of \<^verbatim>\<open>download_geojson_files\<close> that change during the run, together
  with the file system, the console, the URLs requested so far and the number of
  one-second pauses taken.
\<close>

record run_state =
  disk :: filesystem
  success_count :: nat
  failed_files :: "string list"
  created_dirs :: "string set"
  stdout :: "line list"
  requests :: "string list"
  sleeps :: nat

definition say :: "line list \<Rightarrow> run_state \<Rightarrow> run_state" where
  "say ls st = st\<lparr>stdout := stdout st @ ls\<rparr>"

text \<open>\<^verbatim>\<open>config.get("should_overwrite", should_overwrite)\<close>\<close>

definition file_should_overwrite :: "bool \<Rightarrow> config \<Rightarrow> bool" where
  "file_should_overwrite global c = (case should_overwrite c of Some b \<Rightarrow> b | None \<Rightarrow> global)"

definition filepath :: "config \<Rightarrow> string" where
  "filepath c = os_path_join (directory c) (save_as c)"

text \<open>
  The only handler of the loop, \<^verbatim>\<open>except requests.RequestException\<close> (lines 253-254): it
  prints one line and lets the loop go on; it does not touch \<^verbatim>\<open>failed_files\<close>. Every
  other exception leaves the loop and the function.
\<close>

definition except_clause :: "exn \<Rightarrow> run_state \<Rightarrow> exn option \<times> run_state" where
  "except_clause e st =
     (if e = RequestException then (None, say [Error_failed_to_download] st) else (Some e, st))"

text \<open>Lines 209-214: the directory is made once per run and remembered.\<close>

definition ensure_directory :: "env \<Rightarrow> string \<Rightarrow> run_state \<Rightarrow> exn + run_state" where
  "ensure_directory E dir st =
     (if dir \<in> created_dirs st then Inr st
      else case makedirs E dir (disk st) of
             Inl e \<Rightarrow> Inl e
           | Inr d \<Rightarrow> Inr (say [Created_directory dir]
                            (st\<lparr>disk := d, created_dirs := insert dir (created_dirs st)\<rparr>)))"

text \<open>
  One iteration of the loop of lines 204-254, for the \<open>i\<close>-th of \<open>n\<close> entries. The result is
  the exception that leaves the loop, if any, and the state reached.
\<close>

definition loop_body ::
  "env \<Rightarrow> bool \<Rightarrow> string \<Rightarrow> nat \<Rightarrow> nat \<Rightarrow> string \<times> config \<Rightarrow> run_state \<Rightarrow> exn option \<times> run_state"
where
  "loop_body E global base_url n i entry st =
     (case entry of (filename, c) \<Rightarrow>
        (case ensure_directory E (directory c) st of
           Inl e \<Rightarrow> except_clause e st
         | Inr st1 \<Rightarrow>
             if os_path_exists (disk st1) (filepath c) \<and> \<not> file_should_overwrite global c
             then (None, say [Skip_line i n filename] st1)
             else
               let st2 = (say [Downloading_line i n filename] st1)
                           \<lparr>requests := requests st1 @ [base_url @ filename]\<rparr>
               in (case get E (base_url @ filename) of
                     Inl e \<Rightarrow> except_clause e st2
                   | Inr r \<Rightarrow>
                       if raise_for_status r then except_clause RequestException st2
                       else (case write_file E (filepath c) (content r) (disk st2) of
                               Inl e \<Rightarrow> except_clause e st2
                             | Inr d \<Rightarrow>
                                 let st3 = (say [Success_line (category_of filename)
                                                   (length (content r))] (st2\<lparr>disk := d\<rparr>))
                                             \<lparr>success_count := success_count st2 + 1\<rparr>
                                 in (None, if i < n then st3\<lparr>sleeps := sleeps st3 + 1\<rparr>
                                           else st3)))))"

fun loop ::
  "env \<Rightarrow> bool \<Rightarrow> string \<Rightarrow> nat \<Rightarrow> nat \<Rightarrow> catalog \<Rightarrow> run_state \<Rightarrow> exn option \<times> run_state"
where
  "loop E global base_url n i [] st = (None, st)"
| "loop E global base_url n i (entry # rest) st =
     (case loop_body E global base_url n i entry st of
        (Some e, st') \<Rightarrow> (Some e, st')
      | (None, st') \<Rightarrow> loop E global base_url n (Suc i) rest st')"

text \<open>Lines 256-285: the summary printed after the loop.\<close>

definition summary :: "catalog \<Rightarrow> run_state \<Rightarrow> line list" where
  "summary files_to_download st =
     [Download_complete, Success_summary (success_count st) (length files_to_download)]
     @ (if failed_files st \<noteq> []
        then Failed_summary (length (failed_files st)) # map Failed_item (failed_files st)
        else [])
     @ [Organized_under, Directory_structure_created]
     @ map (\<lambda>dir. Directory_item dir
                    (length (filter (\<lambda>(k, f). directory f = dir) files_to_download)))
           (sorted_list_of_set (created_dirs st))
     @ [Key_coastline_files]
     @ map (\<lambda>(cf, c). if os_path_exists (disk st) (filepath c)
                       then Coastline_success cf else Coastline_missing cf)
           (filter (\<lambda>(k, c). contains k ''coastline'') files_to_download)
     @ [Complete_banner, All_finished]"

definition initial_state :: "filesystem \<Rightarrow> nat \<Rightarrow> run_state" where
  "initial_state d n =
     \<lparr>disk = d, success_count = 0, failed_files = [], created_dirs = {},
      stdout = [Starting_download n, Base_directory, Organized_by_category],
      requests = [], sleeps = 0\<rparr>"

text \<open>
  \<^verbatim>\<open>download_geojson_files\<close>, with the configuration of lines 23-191 (the global
  \<^verbatim>\<open>should_overwrite\<close>, \<^verbatim>\<open>base_url\<close> and the dictionary \<^verbatim>\<open>geojson_files\<close>, which are
  written to be edited) as parameters: what is proved holds for every catalog, the one in
  the file included. \<open>None\<close> means that the function reached its \<^verbatim>\<open>sys.exit(0)\<close> (line 286);
  \<open>Some e\<close> means that exception \<open>e\<close> left the function.
\<close>

definition download_geojson_files ::
  "env \<Rightarrow> bool \<Rightarrow> string \<Rightarrow> catalog \<Rightarrow> filesystem \<Rightarrow> exn option \<times> run_state"
where
  "download_geojson_files E global base_url geojson_files d =
     (let files_to_download = filter (\<lambda>(k, v). download v) geojson_files;
          n = length files_to_download
      in case loop E global base_url n 1 files_to_download (initial_state d n) of
           (Some e, st) \<Rightarrow> (Some e, st)
         | (None, st) \<Rightarrow> (None, say (summary files_to_download st) st))"

text \<open>
  The \<^verbatim>\<open>__main__\<close> block (lines 288-298): the exit status of the process and the final
  state. \<^verbatim>\<open>sys.exit(0)\<close> raises \<^verbatim>\<open>SystemExit\<close>, which neither handler catches. The third
  handler (lines 299-301, a second \<^verbatim>\<open>except Exception\<close>) can never run, since the handler
  before it catches the same class. \<^verbatim>\<open>signal_handler\<close> (lines 13-17) is defined and never
  installed, so a Ctrl+C reaches the script as \<^verbatim>\<open>KeyboardInterrupt\<close>.
\<close>

definition main :: "env \<Rightarrow> bool \<Rightarrow> string \<Rightarrow> catalog \<Rightarrow> filesystem \<Rightarrow> nat \<times> run_state" where
  "main E global base_url geojson_files d =
     (case download_geojson_files E global base_url geojson_files d of
        (None, st) \<Rightarrow> (0, st)
      | (Some KeyboardInterrupt, st) \<Rightarrow> (0, say [Process_interrupted, Exiting] st)
      | (Some e, st) \<Rightarrow> (1, say [Unexpected_error e, Exiting] st))"

subsection \<open>The two outcomes of a fetch\<close>

text \<open>
  For stating what happens to an entry: its fetch fails when \<^verbatim>\<open>requests.get\<close> raises a
  \<^verbatim>\<open>RequestException\<close> (a transport failure) or \<^verbatim>\<open>raise_for_status\<close> rejects the response;
  it succeeds when a response arrives that \<^verbatim>\<open>raise_for_status\<close> accepts.
\<close>

definition fetch_fails :: "env \<Rightarrow> string \<Rightarrow> bool" where
  "fetch_fails E u =
     (case get E u of Inl e \<Rightarrow> e = RequestException | Inr r \<Rightarrow> raise_for_status r)"

definition fetch_succeeds :: "env \<Rightarrow> string \<Rightarrow> bool" where
  "fetch_succeeds E u =
     (case get E u of Inl e \<Rightarrow> False | Inr r \<Rightarrow> \<not> raise_for_status r)"

section \<open>The index generator (generate_index.py)\<close>

subsection \<open>The directory tree\<close>

text \<open>
  What \<^verbatim>\<open>os.walk\<close> reads: a directory holds named entries, in the order in which the
  operating system lists them; an entry is a regular file or a directory with entries of its
  own.
\<close>

datatype node = File string | Directory string "node list"

fun node_name :: "node \<Rightarrow> string" where
  "node_name (File name) = name"
| "node_name (Directory name entries) = name"

fun is_file :: "node \<Rightarrow> bool" where
  "is_file (File name) = True"
| "is_file (Directory name entries) = False"

text \<open>
  \<^verbatim>\<open>os.walk(top)\<close>, top-down: the triple of a directory (its path, the names of its
  subdirectories, the names of its files) comes before the triples of its subdirectories,
  which follow in listing order.
\<close>

fun walk :: "string \<Rightarrow> node list \<Rightarrow> (string \<times> string list \<times> string list) list"
  and walk_subdirs :: "string \<Rightarrow> node list \<Rightarrow> (string \<times> string list \<times> string list) list"
where
  "walk path entries =
     (path, map node_name (filter (\<lambda>e. \<not> is_file e) entries),
           map node_name (filter is_file entries)) # walk_subdirs path entries"
| "walk_subdirs path [] = []"
| "walk_subdirs path (File name # rest) = walk_subdirs path rest"
| "walk_subdirs path (Directory name entries # rest) =
     walk (os_path_join path name) entries @ walk_subdirs path rest"

text \<open>
  The entry of the current working directory with a given name. \<^verbatim>\<open>os.walk\<close> yields
  nothing for a path that is not a directory.
\<close>

definition lookup :: "node list \<Rightarrow> string \<Rightarrow> node option" where
  "lookup cwd name = find (\<lambda>e. node_name e = name) cwd"

definition os_walk :: "node list \<Rightarrow> string \<Rightarrow> (string \<times> string list \<times> string list) list" where
  "os_walk cwd path =
     (case lookup cwd path of Some (Directory name entries) \<Rightarrow> walk path entries | _ \<Rightarrow> [])"

subsection \<open>Strings\<close>

text \<open>\<^verbatim>\<open>s.endswith(suffix)\<close>\<close>

definition endswith :: "string \<Rightarrow> string \<Rightarrow> bool" where
  "endswith s suf \<longleftrightarrow> length suf \<le> length s \<and> drop (length s - length suf) s = suf"

text \<open>\<^verbatim>\<open>rel_path.replace('\\', '/')\<close>: every backslash (character 92) becomes a slash.\<close>

definition replace_backslash :: "string \<Rightarrow> string" where
  "replace_backslash s = map (\<lambda>c. if c = CHR 0x5C then CHR ''/'' else c) s"

text \<open>
  \<^verbatim>\<open>os.path.relpath(path)\<close>, relative to the current working directory. The paths it
  receives here are made by \<^verbatim>\<open>os.walk\<close> from the relative root \<^verbatim>\<open>"features"\<close> and the
  names of real directory entries, so they are relative and normalised already, and come
  back as they are.
\<close>

definition os_path_relpath :: "string \<Rightarrow> string" where
  "os_path_relpath p = p"

text \<open>\<^verbatim>\<open>str(n)\<close> for a length: the decimal digits.\<close>

fun str_nat :: "nat \<Rightarrow> string" where
  "str_nat n =
     (if n < 10 then [char_of (48 + n)] else str_nat (n div 10) @ [char_of (48 + n mod 10)])"

subsection \<open>The generator\<close>

definition base_github_url :: string where
  "base_github_url = ''https://dvanauken.github.io/data''"

definition features_root :: string where
  "features_root = ''features''"

record file_info =
  filename :: string
  url :: string

text \<open>Lines 25-35: one record for every file of the walk whose name ends in \<^verbatim>\<open>.geojson\<close>.\<close>

definition scan :: "(string \<times> string list \<times> string list) list \<Rightarrow> file_info list" where
  "scan walked =
     concat (map (\<lambda>(root, subdirs, names).
               map (\<lambda>file. \<lparr>filename = file,
                            url = base_github_url @ ''/''
                                  @ replace_backslash (os_path_relpath (os_path_join root file))\<rparr>)
                   (filter (\<lambda>file. endswith file ''.geojson'') names))
             walked)"

text \<open>Line 54: the list item of one record, with nothing escaped.\<close>

definition list_item :: "file_info \<Rightarrow> string" where
  \<open>list_item file_info =
     ''<li><a href="'' @ url file_info @ ''">'' @ filename file_info @ ''</a></li>\<newline>''\<close>

text \<open>
  Lines 41-58: the document that lists the records in the order given. \<open>now\<close> is the
  formatted time of the run.
\<close>

definition document :: "string \<Rightarrow> file_info list \<Rightarrow> string" where
  "document now geojson_files =
     ''<html>\<newline><head>\<newline><title>Natural Earth GeoJSON Files</title>\<newline></head>\<newline><body>\<newline>''
     @ ''<h1>Natural Earth GeoJSON Files</h1>\<newline><p>Generated: '' @ now @ ''</p>\<newline>''
     @ ''<p>Total files: '' @ str_nat (length geojson_files) @ ''</p>\<newline><hr>\<newline><ul>\<newline>''
     @ concat (map list_item geojson_files)
     @ ''</ul>\<newline></body>\<newline></html>''"

datatype index_line = Directory_not_found string | Generated_index nat

text \<open>
  The outcome of \<^verbatim>\<open>generate_index_html\<close>: the exception that left the function, if any,
  the content written to \<^verbatim>\<open>index.html\<close>, if any, and the lines printed.
\<close>

record index_result =
  raised :: "exn option"
  written :: "string option"
  printed :: "index_line list"

text \<open>
  \<^verbatim>\<open>generate_index_html\<close> in a working directory with entries \<open>cwd\<close>, at time \<open>now\<close>;
  \<open>writable\<close> tells whether \<^verbatim>\<open>index.html\<close> can be opened for writing there.
  \<^verbatim>\<open>list.sort(key=...)\<close> (line 38) is stable, as \<^const>\<open>sort_key\<close> is; strings are compared
  character by character, by code.
\<close>

definition generate_index_html :: "string \<Rightarrow> bool \<Rightarrow> node list \<Rightarrow> index_result" where
  "generate_index_html now writable cwd =
     (if lookup cwd features_root = None
      then \<lparr>raised = None, written = None, printed = [Directory_not_found features_root]\<rparr>
      else
        let geojson_files = sort_key filename (scan (os_walk cwd features_root)) in
        if \<not> writable then \<lparr>raised = Some OSError, written = None, printed = []\<rparr>
        else \<lparr>raised = None, written = Some (document now geojson_files),
              printed = [Generated_index (length geojson_files)]\<rparr>)"

subsection \<open>The files of a tree\<close>

text \<open>
  For stating what the index lists: every regular file below a directory, as the pair of
  the path of the directory that holds it and its name; and the record the index is to
  hold for such a file.
\<close>

fun tree_files :: "string \<Rightarrow> node \<Rightarrow> (string \<times> string) list" where
  "tree_files dir (File name) = [(dir, name)]"
| "tree_files dir (Directory name entries) =
     concat (map (tree_files (os_path_join dir name)) entries)"

definition record_of :: "string \<times> string \<Rightarrow> file_info" where
  "record_of f =
     \<lparr>filename = snd f,
      url = base_github_url @ ''/'' @ replace_backslash (os_path_join (fst f) (snd f))\<rparr>"

definition geojson_records :: "(string \<times> string) list \<Rightarrow> file_info list" where
  "geojson_records fs = map record_of (filter (\<lambda>f. endswith (snd f) ''.geojson'') fs)"

section \<open>Concrete inputs\<close>

text \<open>Small catalogs, file systems and environments on which the script is run below.\<close>

definition enabled_entry :: "string \<Rightarrow> string \<Rightarrow> bool option \<Rightarrow> config" where
  "enabled_entry dir name ov = \<lparr>download = True, directory = dir, save_as = name, should_overwrite = ov\<rparr>"

definition empty_disk :: filesystem where
  "empty_disk = \<lparr>file_content = Map.empty, directories = {}\<rparr>"

definition env_404 :: env where
  "env_404 = \<lparr>get = (\<lambda>u. Inr \<lparr>status_code = 404, content = ''Not Found''\<rparr>),
             mkdir_fault = (\<lambda>p. False), open_fault = (\<lambda>p. False)\<rparr>"

definition env_readonly :: env where
  "env_readonly = \<lparr>get = (\<lambda>u. Inr \<lparr>status_code = 200, content = ''{}''\<rparr>),
             mkdir_fault = (\<lambda>p. False), open_fault = (\<lambda>p. p = ''d/a.geojson'')\<rparr>"

definition one_entry :: catalog where
  "one_entry = [(''a.geojson'', enabled_entry ''d'' ''a.geojson'' None)]"

definition two_entries :: catalog where
  "two_entries = [(''a.geojson'', enabled_entry ''d'' ''a.geojson'' None),
                  (''b.geojson'', enabled_entry ''d'' ''b.geojson'' None)]"

definition env_304 :: env where
  "env_304 = \<lparr>get = (\<lambda>u. Inr \<lparr>status_code = 304, content = ''stale''\<rparr>),
             mkdir_fault = (\<lambda>p. False), open_fault = (\<lambda>p. False)\<rparr>"

definition env_200 :: env where
  "env_200 = \<lparr>get = (\<lambda>u. Inr \<lparr>status_code = 200, content = ''new''\<rparr>),
             mkdir_fault = (\<lambda>p. False), open_fault = (\<lambda>p. False)\<rparr>"

definition disk_old :: filesystem where
  "disk_old = \<lparr>file_content = [''d/a.geojson'' \<mapsto> ''old''], directories = {''d''}\<rparr>"

definition disk_with_directory :: filesystem where
  "disk_with_directory = \<lparr>file_content = Map.empty, directories = {''d''}\<rparr>"

definition same_destination :: catalog where
  "same_destination = [(''a.geojson'', enabled_entry ''d'' ''a.geojson'' None),
                       (''b.geojson'', enabled_entry ''d'' ''a.geojson'' (Some False))]"

definition keep_first :: catalog where
  "keep_first = [(''a.geojson'', enabled_entry ''d'' ''a.geojson'' (Some False)),
                 (''b.geojson'', enabled_entry ''d'' ''b.geojson'' None)]"

definition three_entries :: catalog where
  "three_entries = [(''a.geojson'', enabled_entry ''d'' ''a.geojson'' None),
                    (''b.geojson'', enabled_entry ''d'' ''b.geojson'' None),
                    (''c.geojson'', enabled_entry ''e'' ''c.geojson'' None)]"

definition env_b_fails :: env where
  "env_b_fails = \<lparr>get = (\<lambda>u. if u = ''http://host/b.geojson'' then Inl RequestException
                               else Inr \<lparr>status_code = 200, content = ''new''\<rparr>),
                  mkdir_fault = (\<lambda>p. False), open_fault = (\<lambda>p. False)\<rparr>"

definition env_interrupt :: env where
  "env_interrupt = \<lparr>get = (\<lambda>u. if u = ''http://host/b.geojson'' then Inl KeyboardInterrupt
                                 else Inr \<lparr>status_code = 200, content = ''new''\<rparr>),
                    mkdir_fault = (\<lambda>p. False), open_fault = (\<lambda>p. False)\<rparr>"


definition three_files :: "node list" where
  "three_files = [File ''a.geojson'', File ''B.geojson'', File ''c.txt'']"

definition cwd_three_files :: "node list" where
  "cwd_three_files = [File ''data.py'', Directory ''features'' three_files]"

definition metachar_files :: "node list" where
  \<open>metachar_files = [Directory ''sub'' [File ''<b>&"x".geojson'']]\<close>

definition cwd_metachar :: "node list" where
  "cwd_metachar = [Directory ''features'' metachar_files]"

section \<open>The downloader: what one iteration and the loop preserve\<close>

lemmas body_defs = loop_body_def ensure_directory_def except_clause_def say_def makedirs_def write_file_def

lemma loop_body_failed_files:
  "failed_files (snd (loop_body E g b n i x st)) = failed_files st"
  by (auto simp: body_defs Let_def split: prod.splits sum.splits if_splits)

lemma loop_step:
  "loop E g b n i (x # xs) st =
     (if fst (loop_body E g b n i x st) = None
      then loop E g b n (Suc i) xs (snd (loop_body E g b n i x st))
      else loop_body E g b n i x st)"
  by (cases "loop_body E g b n i x st") (auto split: option.splits)

lemma loop_failed_files:
  "failed_files (snd (loop E g b n i xs st)) = failed_files st"
  by (induction xs arbitrary: i st) (simp_all add: loop_step loop_body_failed_files del: loop.simps(2))

lemma download_failed_files:
  "failed_files (snd (download_geojson_files E g b cat d)) = []"
  using loop_failed_files[of E g b "length (filter (\<lambda>(k, v). download v) cat)" 1 "filter (\<lambda>(k, v). download v) cat" "initial_state d (length (filter (\<lambda>(k, v). download v) cat))"]
  by (auto simp: download_geojson_files_def Let_def say_def initial_state_def split: prod.splits option.splits)

lemma loop_body_directories_mono:
  "directories (disk st) \<subseteq> directories (disk (snd (loop_body E g b n i x st)))"
  by (auto simp: body_defs Let_def split: prod.splits sum.splits if_splits)

lemma loop_body_dom_mono:
  "dom (file_content (disk st)) \<subseteq> dom (file_content (disk (snd (loop_body E g b n i x st))))"
  by (auto simp: body_defs Let_def split: prod.splits sum.splits if_splits)

lemma loop_body_exists_mono:
  "os_path_exists (disk st) p \<Longrightarrow> os_path_exists (disk (snd (loop_body E g b n i x st))) p"
  using loop_body_directories_mono[of st E g b n i x] loop_body_dom_mono[of st E g b n i x]
  unfolding os_path_exists_def by blast

lemma loop_body_file_other:
  "filepath c \<noteq> p \<Longrightarrow>
   file_content (disk (snd (loop_body E g b n i (k, c) st))) p = file_content (disk st) p"
  by (auto simp: body_defs Let_def split: prod.splits sum.splits if_splits)

lemma ensure_directory_exists_mono:
  "ensure_directory E dir st = Inr st1 \<Longrightarrow> os_path_exists (disk st) p \<Longrightarrow> os_path_exists (disk st1) p"
  by (auto simp: ensure_directory_def makedirs_def say_def os_path_exists_def split: if_splits sum.splits)

lemma ensure_directory_frame:
  "ensure_directory E dir st = Inr st1 \<Longrightarrow>
     file_content (disk st1) = file_content (disk st) \<and> requests st1 = requests st
     \<and> success_count st1 = success_count st \<and> failed_files st1 = failed_files st
     \<and> sleeps st1 = sleeps st"
  by (auto simp: ensure_directory_def makedirs_def say_def split: if_splits sum.splits)

lemma loop_body_skip:
  assumes "os_path_exists (disk st) (filepath c)" "\<not> file_should_overwrite g c"
  shows "file_content (disk (snd (loop_body E g b n i (k, c) st))) = file_content (disk st)
       \<and> requests (snd (loop_body E g b n i (k, c) st)) = requests st
       \<and> success_count (snd (loop_body E g b n i (k, c) st)) = success_count st"
proof (cases "ensure_directory E (directory c) st")
  case (Inl e)
  then show ?thesis by (auto simp: loop_body_def except_clause_def say_def)
next
  case (Inr st1)
  with assms ensure_directory_exists_mono[OF Inr, of "filepath c"] ensure_directory_frame[OF Inr]
  show ?thesis by (simp add: loop_body_def say_def)
qed

lemma loop_body_requests:
  "requests (snd (loop_body E g b n i (k, c) st)) = requests st
   \<or> requests (snd (loop_body E g b n i (k, c) st)) = requests st @ [b @ k]"
  by (auto simp: body_defs Let_def split: prod.splits sum.splits if_splits)

lemmas run_defs = main_def download_geojson_files_def initial_state_def summary_def body_defs
  os_path_exists_def filepath_def os_path_join_def file_should_overwrite_def raise_for_status_def
  path_prefixes_def category_of_def

lemma loop_body_stdout:
  "\<exists>ls. stdout (snd (loop_body E g b n i x st)) = stdout st @ ls
       \<and> Complete_banner \<notin> set ls \<and> Process_interrupted \<notin> set ls"
  by (auto simp: body_defs Let_def split: prod.splits sum.splits if_splits)

lemma loop_stdout:
  "\<exists>ls. stdout (snd (loop E g b n i xs st)) = stdout st @ ls
       \<and> Complete_banner \<notin> set ls \<and> Process_interrupted \<notin> set ls"
proof (induction xs arbitrary: i st)
  case Nil
  show ?case by simp
next
  case (Cons x xs)
  obtain ls1 where 1: "stdout (snd (loop_body E g b n i x st)) = stdout st @ ls1"
      "Complete_banner \<notin> set ls1" "Process_interrupted \<notin> set ls1"
    using loop_body_stdout by blast
  obtain ls2 where 2: "stdout (snd (loop E g b n (Suc i) xs (snd (loop_body E g b n i x st))))
        = stdout (snd (loop_body E g b n i x st)) @ ls2"
      "Complete_banner \<notin> set ls2" "Process_interrupted \<notin> set ls2"
    using Cons.IH by blast
  show ?case
  proof (cases "fst (loop_body E g b n i x st) = None")
    case True
    with 1 2 have "stdout (snd (loop E g b n i (x # xs) st)) = stdout st @ (ls1 @ ls2)
        \<and> Complete_banner \<notin> set (ls1 @ ls2) \<and> Process_interrupted \<notin> set (ls1 @ ls2)"
      by (simp add: loop_step del: loop.simps(2))
    then show ?thesis by blast
  next
    case False
    with 1 show ?thesis by (auto simp add: loop_step simp del: loop.simps(2))
  qed
qed

lemma loop_body_not_request_exception:
  "fst (loop_body E g b n i x st) \<noteq> Some RequestException"
  by (auto simp: body_defs Let_def split: prod.splits sum.splits if_splits)

lemma loop_not_request_exception:
  "fst (loop E g b n i xs st) \<noteq> Some RequestException"
  by (induction xs arbitrary: i st)
     (simp_all add: loop_step loop_body_not_request_exception del: loop.simps(2))

lemma summary_lines:
  "Process_interrupted \<notin> set (summary ftd st)"
  by (auto simp: summary_def split: if_splits)

section \<open>The downloader: failures of single entries\<close>

text \<open>
  Claim C1 says that an entry whose request ends in an error status or a transport failure
  is recorded in the failure list, and that the summary reports that list. The script does
  not do so: the handler of the loop only prints, and the one statement that appends to
  \<^verbatim>\<open>failed_files\<close> stands in a handler at module level that can never run. Here the script
  runs on one enabled entry whose request is answered with status 404: the request is made,
  the error line is printed, the process ends with status 0, and the failure list is empty,
  so the summary has no line about a failure.
\<close>

theorem failed_fetch_not_recorded:
  "fst (main env_404 True ''http://host/'' one_entry empty_disk) = 0
   \<and> requests (snd (main env_404 True ''http://host/'' one_entry empty_disk)) = [''http://host/a.geojson'']
   \<and> failed_files (snd (main env_404 True ''http://host/'' one_entry empty_disk)) = []
   \<and> stdout (snd (main env_404 True ''http://host/'' one_entry empty_disk)) =
        [Starting_download 1, Base_directory, Organized_by_category,
         Created_directory ''d'', Downloading_line 1 1 ''a.geojson'',
         Error_failed_to_download, Download_complete, Success_summary 0 1,
         Organized_under, Directory_structure_created, Directory_item ''d'' 1,
         Key_coastline_files, Complete_banner, All_finished]"
  by (simp add: run_defs one_entry_def enabled_entry_def env_404_def empty_disk_def Let_def)

text \<open>
  Claim C2 says that an error raised while the destination file is opened or written is
  caught for that entry alone and that the run goes on. The script does not do so: the loop
  catches \<^verbatim>\<open>requests.RequestException\<close> only, so the \<^verbatim>\<open>OSError\<close> leaves the function and
  ends the process with status 1. Here the script runs on two enabled entries, and the
  destination of the first cannot be opened: the second entry is never requested, its file
  is not there afterwards, and the failure list is empty.
\<close>

theorem write_error_aborts_run:
  "fst (main env_readonly True ''http://host/'' two_entries empty_disk) = 1
   \<and> requests (snd (main env_readonly True ''http://host/'' two_entries empty_disk)) = [''http://host/a.geojson'']
   \<and> failed_files (snd (main env_readonly True ''http://host/'' two_entries empty_disk)) = []
   \<and> file_content (disk (snd (main env_readonly True ''http://host/'' two_entries empty_disk))) ''d/b.geojson'' = None
   \<and> stdout (snd (main env_readonly True ''http://host/'' two_entries empty_disk)) =
        [Starting_download 2, Base_directory, Organized_by_category,
         Created_directory ''d'', Downloading_line 1 2 ''a.geojson'',
         Unexpected_error OSError, Exiting]"
  by (simp add: run_defs two_entries_def enabled_entry_def env_readonly_def empty_disk_def Let_def)

section \<open>The downloader: exit status\<close>

text \<open>
  Claim C6: the process ends with status 0 when the function reaches its end (the
  exception of a failed request never leaves the loop, so failed entries do not change
  this) and when the user interrupts it; the interrupted run prints its own lines and never
  the banner of a completed run, and a completed run never prints the lines of an
  interrupted one. The status is 1 exactly when another exception reaches the top level.
\<close>

theorem exit_status:
  "(case download_geojson_files E g b cat d of
      (None, st) \<Rightarrow>
         main E g b cat d = (0, st) \<and> Process_interrupted \<notin> set (stdout st)
         \<and> (\<exists>ls. stdout st = ls @ [Complete_banner, All_finished])
    | (Some e, st) \<Rightarrow>
         e \<noteq> RequestException \<and> Complete_banner \<notin> set (stdout st)
         \<and> (if e = KeyboardInterrupt
             then main E g b cat d = (0, say [Process_interrupted, Exiting] st)
             else main E g b cat d = (1, say [Unexpected_error e, Exiting] st)))"
proof -
  define ftd where "ftd = filter (\<lambda>(k, v). download v) cat"
  define st0 where "st0 = initial_state d (length ftd)"
  obtain r st where L: "loop E g b (length ftd) 1 ftd st0 = (r, st)"
    by (cases "loop E g b (length ftd) 1 ftd st0")
  obtain ls where ls: "stdout st = stdout st0 @ ls" "Complete_banner \<notin> set ls"
      "Process_interrupted \<notin> set ls"
    using loop_stdout[of E g b "length ftd" 1 ftd st0] L by auto
  have st0: "stdout st0 = [Starting_download (length ftd), Base_directory, Organized_by_category]"
    by (simp add: st0_def initial_state_def)
  have D: "download_geojson_files E g b cat d =
      (case r of Some e \<Rightarrow> (Some e, st) | None \<Rightarrow> (None, say (summary ftd st) st))"
    using L by (simp add: download_geojson_files_def Let_def ftd_def st0_def split: option.splits)
  show ?thesis
  proof (cases r)
    case None
    have "summary ftd st = butlast (butlast (summary ftd st)) @ [Complete_banner, All_finished]"
      by (simp add: summary_def butlast_append)
    then have "stdout (say (summary ftd st) st)
        = (stdout st @ butlast (butlast (summary ftd st))) @ [Complete_banner, All_finished]"
      by (simp add: say_def)
    then have "\<exists>ls. stdout (say (summary ftd st) st) = ls @ [Complete_banner, All_finished]"
      by blast
    moreover have "Process_interrupted \<notin> set (stdout (say (summary ftd st) st))"
      using ls st0 summary_lines[of ftd st] by (simp add: say_def)
    ultimately show ?thesis
      using None D by (simp add: main_def)
  next
    case (Some e)
    have "e \<noteq> RequestException"
      using loop_not_request_exception[of E g b "length ftd" 1 ftd st0] L Some by auto
    with Some D ls st0 show ?thesis
      by (cases e) (auto simp: main_def)
  qed
qed

text \<open>
  A run of three entries that is interrupted during the second request: status 0, the lines
  of the interrupted run after what the function had printed, no banner, and no third
  request.
\<close>

theorem exit_status_witness:
  "fst (download_geojson_files env_interrupt True ''http://host/'' three_entries empty_disk)
     = Some KeyboardInterrupt
   \<and> fst (main env_interrupt True ''http://host/'' three_entries empty_disk) = 0
   \<and> stdout (snd (main env_interrupt True ''http://host/'' three_entries empty_disk))
       = stdout (snd (download_geojson_files env_interrupt True ''http://host/'' three_entries empty_disk))
         @ [Process_interrupted, Exiting]
   \<and> Complete_banner
       \<notin> set (stdout (snd (download_geojson_files env_interrupt True ''http://host/'' three_entries empty_disk)))
   \<and> requests (snd (main env_interrupt True ''http://host/'' three_entries empty_disk))
       = [''http://host/a.geojson'', ''http://host/b.geojson'']"
proof -
  have d: "fst (download_geojson_files env_interrupt True ''http://host/'' three_entries empty_disk)
     = Some KeyboardInterrupt"
    by (simp add: run_defs three_entries_def enabled_entry_def env_interrupt_def empty_disk_def Let_def)
  have r: "requests (snd (main env_interrupt True ''http://host/'' three_entries empty_disk))
       = [''http://host/a.geojson'', ''http://host/b.geojson'']"
    by (simp add: run_defs three_entries_def enabled_entry_def env_interrupt_def empty_disk_def Let_def)
  obtain e st where p: "download_geojson_files env_interrupt True ''http://host/'' three_entries empty_disk
      = (e, st)"
    by (cases "download_geojson_files env_interrupt True ''http://host/'' three_entries empty_disk")
  with d have e: "e = Some KeyboardInterrupt" by simp
  from exit_status[of env_interrupt True "''http://host/''" three_entries empty_disk]
  have "Complete_banner \<notin> set (stdout st)
      \<and> main env_interrupt True ''http://host/'' three_entries empty_disk
          = (0, say [Process_interrupted, Exiting] st)"
    unfolding p e by simp
  with d r show ?thesis
    unfolding p by (simp add: say_def)
qed

section \<open>The downloader: a failed request and the destination file\<close>

text \<open>
  Claim C9, as the script has it: when the request of an entry raises a transport error, or
  is answered with a status that \<^verbatim>\<open>raise_for_status\<close> rejects (400 to 599), the iteration
  of that entry leaves every file as it was, content or absence, and counts no success; the
  exception does not leave the loop.
\<close>

theorem failed_fetch_leaves_files:
  assumes "get E (b @ k) = Inl RequestException
         \<or> (\<exists>r. get E (b @ k) = Inr r \<and> 400 \<le> status_code r \<and> status_code r < 600)"
  shows "file_content (disk (snd (loop_body E g b n i (k, c) st))) = file_content (disk st)
       \<and> success_count (snd (loop_body E g b n i (k, c) st)) = success_count st
       \<and> fst (loop_body E g b n i (k, c) st) \<noteq> Some RequestException"
proof (cases "ensure_directory E (directory c) st")
  case (Inl e)
  then show ?thesis
    by (auto simp: loop_body_def except_clause_def say_def)
next
  case (Inr st1)
  with assms ensure_directory_frame[OF Inr] show ?thesis
    by (auto simp: loop_body_def except_clause_def say_def raise_for_status_def Let_def)
qed

theorem failed_fetch_leaves_files_witness:
  "(get env_404 (''http://host/'' @ ''a.geojson'') = Inl RequestException
     \<or> (\<exists>r. get env_404 (''http://host/'' @ ''a.geojson'') = Inr r
            \<and> 400 \<le> status_code r \<and> status_code r < 600))
   \<and> file_content (disk (snd (loop_body env_404 True ''http://host/'' 1 1
          (''a.geojson'', enabled_entry ''d'' ''a.geojson'' None) (initial_state disk_old 1))))
        ''d/a.geojson'' = Some ''old''"
proof -
  have h: "get env_404 (''http://host/'' @ ''a.geojson'') = Inl RequestException
     \<or> (\<exists>r. get env_404 (''http://host/'' @ ''a.geojson'') = Inr r
            \<and> 400 \<le> status_code r \<and> status_code r < 600)"
    by (simp add: env_404_def)
  from failed_fetch_leaves_files[OF h, of True 1 1 "enabled_entry ''d'' ''a.geojson'' None"
      "initial_state disk_old 1"] h
  show ?thesis by (simp add: initial_state_def disk_old_def)
qed

text \<open>
  Claim C9 itself speaks of every status outside 200 to 299. For those that \<^verbatim>\<open>raise_for_status\<close>
  lets pass the file is written: a response with status 304 replaces the content of the
  destination.
\<close>

theorem status_304_is_written:
  "get env_304 ''http://host/a.geojson'' = Inr \<lparr>status_code = 304, content = ''stale''\<rparr>
   \<and> \<not> (200 \<le> (304::nat) \<and> (304::nat) < 300)
   \<and> file_content (disk (initial_state disk_old 1)) ''d/a.geojson'' = Some ''old''
   \<and> file_content (disk (snd (loop_body env_304 True ''http://host/'' 1 1
          (''a.geojson'', enabled_entry ''d'' ''a.geojson'' None) (initial_state disk_old 1))))
        ''d/a.geojson'' = Some ''stale''"
  by (simp add: run_defs env_304_def enabled_entry_def disk_old_def Let_def)

section \<open>The downloader: directories\<close>

lemma loop_body_created_dirs:
  "fst (loop_body E g b n i (k, c) st) = None \<Longrightarrow>
     created_dirs (snd (loop_body E g b n i (k, c) st)) = insert (directory c) (created_dirs st)"
  by (auto simp: body_defs Let_def split: prod.splits sum.splits if_splits)

lemma loop_body_created_in_directories:
  "created_dirs st \<subseteq> directories (disk st) \<Longrightarrow>
     created_dirs (snd (loop_body E g b n i x st))
       \<subseteq> directories (disk (snd (loop_body E g b n i x st)))"
  by (auto simp: body_defs path_prefixes_def Let_def split: prod.splits sum.splits if_splits)

lemma loop_body_directories_fixed:
  "directory c \<in> directories (disk st) \<Longrightarrow>
     directories (disk (snd (loop_body E g b n i (k, c) st))) = directories (disk st)"
  by (auto simp: body_defs Let_def split: prod.splits sum.splits if_splits)

lemma loop_created_dirs:
  "fst (loop E g b n i xs st) = None \<Longrightarrow>
     created_dirs (snd (loop E g b n i xs st)) = created_dirs st \<union> (directory \<circ> snd) ` set xs"
proof (induction xs arbitrary: i st)
  case Nil
  show ?case by simp
next
  case (Cons x xs)
  obtain k c where x: "x = (k, c)" by (cases x)
  from Cons.prems have 1: "fst (loop_body E g b n i x st) = None"
    by (auto simp: loop_step simp del: loop.simps(2) split: if_splits)
  with Cons.prems have 2: "fst (loop E g b n (Suc i) xs (snd (loop_body E g b n i x st))) = None"
    by (simp add: loop_step del: loop.simps(2))
  from Cons.IH[OF 2] 1 loop_body_created_dirs[of E g b n i k c st] show ?case
    by (auto simp add: loop_step x simp del: loop.simps(2))
qed

lemma loop_created_in_directories:
  "created_dirs st \<subseteq> directories (disk st) \<Longrightarrow>
     created_dirs (snd (loop E g b n i xs st)) \<subseteq> directories (disk (snd (loop E g b n i xs st)))"
  by (induction xs arbitrary: i st)
     (simp_all add: loop_step loop_body_created_in_directories del: loop.simps(2))

lemma loop_directories_fixed:
  "\<forall>(k, c) \<in> set xs. directory c \<in> directories (disk st) \<Longrightarrow>
     directories (disk (snd (loop E g b n i xs st))) = directories (disk st)"
proof (induction xs arbitrary: i st)
  case Nil
  show ?case by simp
next
  case (Cons x xs)
  obtain k c where x: "x = (k, c)" by (cases x)
  have 1: "directories (disk (snd (loop_body E g b n i x st))) = directories (disk st)"
    using Cons.prems by (simp add: x loop_body_directories_fixed)
  with Cons.prems have
    "\<forall>(k, c) \<in> set xs. directory c \<in> directories (disk (snd (loop_body E g b n i x st)))"
    by simp
  from Cons.IH[OF this] 1 show ?case
    by (simp add: loop_step del: loop.simps(2))
qed

lemma download_disk:
  "disk (snd (download_geojson_files E g b cat d))
     = disk (snd (loop E g b (length (filter (\<lambda>(k, v). download v) cat)) 1
                    (filter (\<lambda>(k, v). download v) cat)
                    (initial_state d (length (filter (\<lambda>(k, v). download v) cat)))))"
  by (simp add: download_geojson_files_def Let_def say_def split: prod.splits option.splits)

text \<open>
  Claim C4, as the script has it: after a run that reached its end, \<^verbatim>\<open>created_dirs\<close> is the
  set of the directories of the enabled entries, each of them exists, and making any of them
  again raises nothing and changes nothing, whatever the operating system would refuse; so a
  second run over the same catalog, with any network and any defaults, leaves the set of
  directories as the first run left it.
\<close>

theorem created_dirs_are_visited_dirs:
  assumes "download_geojson_files E g b cat d = (None, st)"
  shows "created_dirs st = set (map (\<lambda>(k, c). directory c) (filter (\<lambda>(k, c). download c) cat))
       \<and> (\<forall>(k, c) \<in> set cat. download c \<longrightarrow> makedirs E' (directory c) (disk st) = Inr (disk st))
       \<and> directories (disk (snd (download_geojson_files E' g' b' cat (disk st))))
           = directories (disk st)"
proof -
  define ftd where "ftd = filter (\<lambda>(k, v). download v) cat"
  define st0 where "st0 = initial_state d (length ftd)"
  obtain r st1 where L: "loop E g b (length ftd) 1 ftd st0 = (r, st1)"
    by (cases "loop E g b (length ftd) 1 ftd st0")
  from assms L have r: "r = None" and st: "st = say (summary ftd st1) st1"
    by (auto simp: download_geojson_files_def Let_def ftd_def st0_def split: option.splits)
  have c0: "created_dirs st0 = {}"
    by (simp add: st0_def initial_state_def)
  have "created_dirs st1 = (directory \<circ> snd) ` set ftd"
    using loop_created_dirs[of E g b "length ftd" 1 ftd st0] L r c0 by simp
  moreover have "(directory \<circ> snd) ` set ftd
      = set (map (\<lambda>(k, c). directory c) (filter (\<lambda>(k, c). download c) cat))"
    by (force simp: ftd_def image_iff)
  ultimately have created:
    "created_dirs st = set (map (\<lambda>(k, c). directory c) (filter (\<lambda>(k, c). download c) cat))"
    by (simp add: st say_def)
  have "created_dirs st1 \<subseteq> directories (disk st1)"
    using loop_created_in_directories[of st0 E g b "length ftd" 1 ftd] L c0 by simp
  then have sub: "created_dirs st \<subseteq> directories (disk st)"
    by (simp add: st say_def)
  have mk: "\<forall>(k, c) \<in> set cat. download c \<longrightarrow> makedirs E' (directory c) (disk st) = Inr (disk st)"
    using sub created by (auto simp: makedirs_def)
  have "\<forall>(k, c) \<in> set ftd. directory c \<in> directories (disk st)"
    using sub created by (auto simp: ftd_def)
  then have "\<forall>(k, c) \<in> set ftd.
      directory c \<in> directories (disk (initial_state (disk st) (length ftd)))"
    by (simp add: initial_state_def)
  from loop_directories_fixed[OF this, of E' g' b' "length ftd" 1]
  have "directories (disk (snd (download_geojson_files E' g' b' cat (disk st))))
           = directories (disk st)"
    by (simp add: download_disk ftd_def initial_state_def)
  with created mk show ?thesis by blast
qed

theorem created_dirs_are_visited_dirs_witness:
  "download_geojson_files env_200 True ''http://host/'' two_entries empty_disk
     = (None, snd (download_geojson_files env_200 True ''http://host/'' two_entries empty_disk))
   \<and> created_dirs (snd (download_geojson_files env_200 True ''http://host/'' two_entries empty_disk))
       = {''d''}
   \<and> directories (disk (snd (download_geojson_files env_404 False ''http://host/'' two_entries
          (disk (snd (download_geojson_files env_200 True ''http://host/'' two_entries empty_disk))))))
       = {''d''}"
proof -
  have h: "download_geojson_files env_200 True ''http://host/'' two_entries empty_disk
     = (None, snd (download_geojson_files env_200 True ''http://host/'' two_entries empty_disk))"
    by (simp add: run_defs two_entries_def enabled_entry_def env_200_def empty_disk_def Let_def)
  have d: "directories (disk (snd (download_geojson_files env_200 True ''http://host/'' two_entries empty_disk))) = {''d''}"
    by (simp add: run_defs two_entries_def enabled_entry_def env_200_def empty_disk_def Let_def)
  from created_dirs_are_visited_dirs[OF h, of env_404 False "''http://host/''"]
  have "created_dirs (snd (download_geojson_files env_200 True ''http://host/'' two_entries empty_disk))
          = set (map (\<lambda>(k, c). directory c) (filter (\<lambda>(k, c). download c) two_entries))"
    and "directories (disk (snd (download_geojson_files env_404 False ''http://host/'' two_entries
          (disk (snd (download_geojson_files env_200 True ''http://host/'' two_entries empty_disk))))))
       = directories (disk (snd (download_geojson_files env_200 True ''http://host/'' two_entries empty_disk)))"
    by blast+
  moreover have "set (map (\<lambda>(k, c). directory c) (filter (\<lambda>(k, c). download c) two_entries)) = {''d''}"
    by (simp add: two_entries_def enabled_entry_def)
  ultimately show ?thesis
    using h unfolding d by simp
qed

text \<open>
  Claim C4 itself says that \<^verbatim>\<open>created_dirs\<close> holds exactly the directories newly created
  during the run. The script adds a directory on its first visit, whether or not
  \<^verbatim>\<open>os.makedirs\<close> had anything to create: on a disk where the directory exists already,
  the run creates no directory, and still reports it as created.
\<close>

theorem existing_directory_reported_created:
  "directories disk_with_directory = {''d''}
   \<and> created_dirs (snd (download_geojson_files env_200 True ''http://host/'' one_entry disk_with_directory))
       = {''d''}
   \<and> directories (disk (snd (download_geojson_files env_200 True ''http://host/'' one_entry disk_with_directory)))
       = {''d''}
   \<and> Created_directory ''d''
       \<in> set (stdout (snd (download_geojson_files env_200 True ''http://host/'' one_entry disk_with_directory)))"
  by (simp add: run_defs one_entry_def enabled_entry_def env_200_def disk_with_directory_def Let_def)

section \<open>The downloader: entries that are skipped\<close>

lemma loop_continue:
  "fst (loop_body E g b n i x st) = None \<Longrightarrow>
     loop E g b n i (x # xs) st = loop E g b n (Suc i) xs (snd (loop_body E g b n i x st))"
  by (cases "loop_body E g b n i x st") simp

lemma loop_stop:
  "fst (loop_body E g b n i x st) \<noteq> None \<Longrightarrow>
     loop E g b n i (x # xs) st = loop_body E g b n i x st"
  by (cases "loop_body E g b n i x st") auto

lemma loop_body_skip_line:
  assumes "os_path_exists (disk st) (filepath c)" "\<not> file_should_overwrite g c"
    and "ensure_directory E (directory c) st \<noteq> Inl OSError"
  shows "fst (loop_body E g b n i (k, c) st) = None
       \<and> (\<exists>ls. stdout (snd (loop_body E g b n i (k, c) st)) = ls @ [Skip_line i n k])"
proof (cases "ensure_directory E (directory c) st")
  case (Inl e)
  with assms(3) show ?thesis
    by (auto simp: ensure_directory_def makedirs_def split: if_splits sum.splits)
next
  case (Inr st1)
  with assms ensure_directory_exists_mono[OF Inr, of "filepath c"]
  show ?thesis by (simp add: loop_body_def say_def)
qed

lemma loop_keeps_file:
  assumes "os_path_exists (disk st) p"
    and "\<forall>(k, c) \<in> set xs. filepath c = p \<longrightarrow> \<not> file_should_overwrite g c"
  shows "file_content (disk (snd (loop E g b n i xs st))) p = file_content (disk st) p
       \<and> set (requests (snd (loop E g b n i xs st)))
           \<subseteq> set (requests st) \<union> {b @ k |k c. (k, c) \<in> set xs \<and> filepath c \<noteq> p}"
  using assms
proof (induction xs arbitrary: i st)
  case Nil
  show ?case by simp
next
  case (Cons x xs)
  obtain k c where x: "x = (k, c)" by (cases x)
  let ?st = "snd (loop_body E g b n i x st)"
  have ex: "os_path_exists (disk ?st) p"
    using Cons.prems(1) by (rule loop_body_exists_mono)
  have body: "file_content (disk ?st) p = file_content (disk st) p"
    and here: "set (requests ?st)
      \<subseteq> set (requests st) \<union> {b @ k |k c. (k, c) \<in> set (x # xs) \<and> filepath c \<noteq> p}"
  proof -
    show "file_content (disk ?st) p = file_content (disk st) p"
    proof (cases "filepath c = p")
      case True
      with Cons.prems have "\<not> file_should_overwrite g c" by (simp add: x)
      with True Cons.prems(1) loop_body_skip[of st c g E b n i k] show ?thesis
        by (simp add: x)
    next
      case False
      with loop_body_file_other[of c p E g b n i k st] show ?thesis by (simp add: x)
    qed
    show "set (requests ?st)
      \<subseteq> set (requests st) \<union> {b @ k |k c. (k, c) \<in> set (x # xs) \<and> filepath c \<noteq> p}"
    proof (cases "filepath c = p")
      case True
      with Cons.prems have "\<not> file_should_overwrite g c" by (simp add: x)
      with True Cons.prems(1) loop_body_skip[of st c g E b n i k] show ?thesis
        by (simp add: x)
    next
      case False
      then have "b @ k \<in> {b @ k |k c. (k, c) \<in> set (x # xs) \<and> filepath c \<noteq> p}"
        unfolding x by (intro CollectI exI[of _ k] exI[of _ c]) simp
      with loop_body_requests[of E g b n i k c st] show ?thesis
        unfolding x by (elim disjE) simp_all
    qed
  qed
  have rest: "\<forall>(k, c) \<in> set xs. filepath c = p \<longrightarrow> \<not> file_should_overwrite g c"
    using Cons.prems(2) by simp
  show ?case
  proof (cases "fst (loop_body E g b n i x st) = None")
    case True
    then have eq: "loop E g b n i (x # xs) st = loop E g b n (Suc i) xs ?st"
      by (rule loop_continue)
    from Cons.IH[OF ex rest, of "Suc i"]
    have 1: "file_content (disk (snd (loop E g b n (Suc i) xs ?st))) p = file_content (disk ?st) p"
      and 2: "set (requests (snd (loop E g b n (Suc i) xs ?st)))
           \<subseteq> set (requests ?st) \<union> {b @ k |k c. (k, c) \<in> set xs \<and> filepath c \<noteq> p}"
      by blast+
    have "{b @ k |k c. (k, c) \<in> set xs \<and> filepath c \<noteq> p}
        \<subseteq> {b @ k |k c. (k, c) \<in> set (x # xs) \<and> filepath c \<noteq> p}"
      by auto
    with 2 here have "set (requests (snd (loop E g b n (Suc i) xs ?st)))
        \<subseteq> set (requests st) \<union> {b @ k |k c. (k, c) \<in> set (x # xs) \<and> filepath c \<noteq> p}"
      by blast
    with 1 body show ?thesis
      unfolding eq by simp
  next
    case False
    then have eq: "loop E g b n i (x # xs) st = loop_body E g b n i x st"
      by (rule loop_stop)
    from body here show ?thesis
      unfolding eq by simp
  qed
qed

lemma download_requests:
  "requests (snd (download_geojson_files E g b cat d))
     = requests (snd (loop E g b (length (filter (\<lambda>(k, v). download v) cat)) 1
                    (filter (\<lambda>(k, v). download v) cat)
                    (initial_state d (length (filter (\<lambda>(k, v). download v) cat)))))"
  by (simp add: download_geojson_files_def Let_def say_def split: prod.splits option.splits)

text \<open>
  Claim C3, as the script has it. Take an enabled entry of a catalog with distinct keys,
  whose destination exists before the run, and suppose that every enabled entry with that
  destination has an effective overwrite flag that is false (the flag of the entry if it
  has one, the global default otherwise). Then the destination holds after the run, however
  the run ends, what it held before, and the URL of the entry is never requested. Moreover,
  in any state in which the destination exists, the iteration of the entry changes no file,
  requests nothing, and counts neither a success nor a failure; and unless making its
  directory raises, the iteration ends normally with the line that reports the skip.
\<close>

theorem skipped_entry_untouched:
  assumes "(k, c) \<in> set geojson_files" and "download c" and "distinct (map fst geojson_files)"
    and "os_path_exists d (filepath c)"
    and "\<forall>(k', c') \<in> set geojson_files.
           download c' \<and> filepath c' = filepath c \<longrightarrow> \<not> file_should_overwrite g c'"
  shows "file_content (disk (snd (download_geojson_files E g b geojson_files d))) (filepath c)
           = file_content d (filepath c)
       \<and> b @ k \<notin> set (requests (snd (download_geojson_files E g b geojson_files d)))
       \<and> (\<forall>st i n. os_path_exists (disk st) (filepath c) \<longrightarrow>
             file_content (disk (snd (loop_body E g b n i (k, c) st))) = file_content (disk st)
           \<and> requests (snd (loop_body E g b n i (k, c) st)) = requests st
           \<and> success_count (snd (loop_body E g b n i (k, c) st)) = success_count st
           \<and> failed_files (snd (loop_body E g b n i (k, c) st)) = failed_files st
           \<and> (ensure_directory E (directory c) st \<noteq> Inl OSError \<longrightarrow>
                 fst (loop_body E g b n i (k, c) st) = None
               \<and> (\<exists>ls. stdout (snd (loop_body E g b n i (k, c) st)) = ls @ [Skip_line i n k])))"
proof -
  define ftd where "ftd = filter (\<lambda>(k, v). download v) geojson_files"
  define st0 where "st0 = initial_state d (length ftd)"
  have keep: "\<not> file_should_overwrite g c"
    using assms(1,2,5) by auto
  have ex: "os_path_exists (disk st0) (filepath c)"
    using assms(4) by (simp add: st0_def initial_state_def)
  have all: "\<forall>(k', c') \<in> set ftd. filepath c' = filepath c \<longrightarrow> \<not> file_should_overwrite g c'"
    using assms(5) by (auto simp: ftd_def)
  note L = loop_keeps_file[OF ex all, of E b "length ftd" 1]
  have fc: "file_content (disk (snd (download_geojson_files E g b geojson_files d))) (filepath c)
           = file_content d (filepath c)"
    using L by (simp add: download_disk ftd_def st0_def initial_state_def)
  have "b @ k \<notin> set (requests (snd (loop E g b (length ftd) 1 ftd st0)))"
  proof
    assume "b @ k \<in> set (requests (snd (loop E g b (length ftd) 1 ftd st0)))"
    with L have "b @ k \<in> {b @ k' |k' c'. (k', c') \<in> set ftd \<and> filepath c' \<noteq> filepath c}"
      by (auto simp: st0_def initial_state_def)
    then obtain c' where "(k, c') \<in> set geojson_files" "filepath c' \<noteq> filepath c"
      by (auto simp: ftd_def)
    with assms(1,3) show False
      by (auto dest: eq_key_imp_eq_value)
  qed
  then have req: "b @ k \<notin> set (requests (snd (download_geojson_files E g b geojson_files d)))"
    by (simp add: download_requests ftd_def st0_def)
  have iter: "\<forall>st i n. os_path_exists (disk st) (filepath c) \<longrightarrow>
             file_content (disk (snd (loop_body E g b n i (k, c) st))) = file_content (disk st)
           \<and> requests (snd (loop_body E g b n i (k, c) st)) = requests st
           \<and> success_count (snd (loop_body E g b n i (k, c) st)) = success_count st
           \<and> failed_files (snd (loop_body E g b n i (k, c) st)) = failed_files st
           \<and> (ensure_directory E (directory c) st \<noteq> Inl OSError \<longrightarrow>
                 fst (loop_body E g b n i (k, c) st) = None
               \<and> (\<exists>ls. stdout (snd (loop_body E g b n i (k, c) st)) = ls @ [Skip_line i n k]))"
    using keep loop_body_skip[of _ c g E b _ _ k] loop_body_skip_line[of _ c g E b _ _ k]
      loop_body_failed_files[of E g b _ _ "(k, c)"]
    by (intro allI impI conjI) blast+
  from fc req iter show ?thesis by blast
qed

theorem skipped_entry_untouched_witness:
  "(''a.geojson'', enabled_entry ''d'' ''a.geojson'' (Some False)) \<in> set keep_first
   \<and> download (enabled_entry ''d'' ''a.geojson'' (Some False))
   \<and> distinct (map fst keep_first)
   \<and> os_path_exists disk_old (filepath (enabled_entry ''d'' ''a.geojson'' (Some False)))
   \<and> \<not> file_should_overwrite True (enabled_entry ''d'' ''a.geojson'' (Some False))
   \<and> file_content (disk (snd (download_geojson_files env_200 True ''http://host/'' keep_first disk_old)))
         ''d/a.geojson'' = Some ''old''
   \<and> ''http://host/a.geojson''
         \<notin> set (requests (snd (download_geojson_files env_200 True ''http://host/'' keep_first disk_old)))"
proof -
  let ?c = "enabled_entry ''d'' ''a.geojson'' (Some False)"
  have p: "filepath ?c = ''d/a.geojson''"
    by (simp add: filepath_def enabled_entry_def os_path_join_def)
  have 1: "(''a.geojson'', ?c) \<in> set keep_first" by (simp add: keep_first_def)
  have 2: "download ?c" by (simp add: enabled_entry_def)
  have 3: "distinct (map fst keep_first)" by (simp add: keep_first_def)
  have 4: "os_path_exists disk_old (filepath ?c)"
    by (simp add: p os_path_exists_def disk_old_def)
  have 5: "\<forall>(k', c') \<in> set keep_first.
           download c' \<and> filepath c' = filepath ?c \<longrightarrow> \<not> file_should_overwrite True c'"
    by (simp add: keep_first_def enabled_entry_def filepath_def os_path_join_def
        file_should_overwrite_def)
  from skipped_entry_untouched[OF 1 2 3 4 5, of env_200 "''http://host/''"]
  have "file_content (disk (snd (download_geojson_files env_200 True ''http://host/'' keep_first disk_old)))
         (filepath ?c) = file_content disk_old (filepath ?c)"
    and "''http://host/'' @ ''a.geojson''
         \<notin> set (requests (snd (download_geojson_files env_200 True ''http://host/'' keep_first disk_old)))"
    by blast+
  moreover have "\<not> file_should_overwrite True ?c"
    by (simp add: file_should_overwrite_def enabled_entry_def)
  ultimately show ?thesis
    using 1 2 3 4 unfolding p by (simp add: disk_old_def)
qed

text \<open>
  Claim C3 itself says that the content is unchanged after the run for every such entry.
  The script allows two entries with one destination, and then the last writer wins: here
  the second entry is enabled, its destination exists and its flag is false, and it is
  skipped, but the first entry, with the same destination and the default flag, has
  replaced the content before.
\<close>

theorem skipped_entry_overwritten_by_other:
  "same_destination ! 1 = (''b.geojson'', enabled_entry ''d'' ''a.geojson'' (Some False))
   \<and> download (enabled_entry ''d'' ''a.geojson'' (Some False))
   \<and> filepath (enabled_entry ''d'' ''a.geojson'' (Some False)) = ''d/a.geojson''
   \<and> os_path_exists disk_old ''d/a.geojson''
   \<and> \<not> file_should_overwrite True (enabled_entry ''d'' ''a.geojson'' (Some False))
   \<and> file_content disk_old ''d/a.geojson'' = Some ''old''
   \<and> file_content (disk (snd (download_geojson_files env_200 True ''http://host/'' same_destination disk_old)))
         ''d/a.geojson'' = Some ''new''
   \<and> Skip_line 2 2 ''b.geojson''
         \<in> set (stdout (snd (download_geojson_files env_200 True ''http://host/'' same_destination disk_old)))"
  by (simp add: run_defs same_destination_def enabled_entry_def env_200_def disk_old_def Let_def)

section \<open>The downloader: one failed fetch among many\<close>

lemma loop_body_attempt:
  assumes "\<not> mkdir_fault E (directory c)" "\<not> open_fault E (filepath c)"
    and "fetch_fails E (b @ k) \<or> fetch_succeeds E (b @ k)"
    and "Skip_line i n k \<notin> set (stdout (snd (loop_body E g b n i (k, c) st)))"
  shows "fst (loop_body E g b n i (k, c) st) = None
       \<and> requests (snd (loop_body E g b n i (k, c) st)) = requests st @ [b @ k]
       \<and> (if fetch_succeeds E (b @ k)
          then success_count (snd (loop_body E g b n i (k, c) st)) = success_count st + 1
             \<and> (\<exists>r. get E (b @ k) = Inr r
                   \<and> file_content (disk (snd (loop_body E g b n i (k, c) st)))
                       = (file_content (disk st))(filepath c \<mapsto> content r))
          else success_count (snd (loop_body E g b n i (k, c) st)) = success_count st
             \<and> file_content (disk (snd (loop_body E g b n i (k, c) st))) = file_content (disk st))"
  using assms
  by (auto simp: body_defs fetch_fails_def fetch_succeeds_def Let_def
           split: prod.splits sum.splits if_splits)


lemma loop_Cons_stdout:
  "set (stdout (snd (loop_body E g b n i x st))) \<subseteq> set (stdout (snd (loop E g b n i (x # xs) st)))"
proof (cases "fst (loop_body E g b n i x st) = None")
  case True
  obtain ls where "stdout (snd (loop E g b n (Suc i) xs (snd (loop_body E g b n i x st))))
        = stdout (snd (loop_body E g b n i x st)) @ ls"
    using loop_stdout by blast
  then show ?thesis
    unfolding loop_continue[OF True] by simp
next
  case False
  show ?thesis
    unfolding loop_stop[OF False] by simp
qed

lemma loop_dom_mono:
  "dom (file_content (disk st)) \<subseteq> dom (file_content (disk (snd (loop E g b n i xs st))))"
proof (induction xs arbitrary: i st)
  case Nil
  show ?case by simp
next
  case (Cons x xs)
  show ?case
  proof (cases "fst (loop_body E g b n i x st) = None")
    case True
    from loop_body_dom_mono[of st E g b n i x] Cons.IH[of "snd (loop_body E g b n i x st)" "Suc i"]
    show ?thesis unfolding loop_continue[OF True] by blast
  next
    case False
    from loop_body_dom_mono[of st E g b n i x]
    show ?thesis unfolding loop_stop[OF False] .
  qed
qed

lemma loop_file_other:
  "\<forall>(k, c) \<in> set xs. filepath c \<noteq> p \<Longrightarrow>
     file_content (disk (snd (loop E g b n i xs st))) p = file_content (disk st) p"
proof (induction xs arbitrary: i st)
  case Nil
  show ?case by simp
next
  case (Cons x xs)
  obtain k c where x: "x = (k, c)" by (cases x)
  have 1: "file_content (disk (snd (loop_body E g b n i x st))) p = file_content (disk st) p"
    using Cons.prems by (simp add: x loop_body_file_other)
  have 2: "\<forall>(k, c) \<in> set xs. filepath c \<noteq> p"
    using Cons.prems by simp
  show ?case
  proof (cases "fst (loop_body E g b n i x st) = None")
    case True
    from Cons.IH[OF 2, of "Suc i" "snd (loop_body E g b n i x st)"] 1
    show ?thesis unfolding loop_continue[OF True] by simp
  next
    case False
    from 1 show ?thesis unfolding loop_stop[OF False] .
  qed
qed

lemma loop_all_attempted:
  assumes "\<forall>(k, c) \<in> set xs. \<not> mkdir_fault E (directory c) \<and> \<not> open_fault E (filepath c)"
    and "\<forall>(k, c) \<in> set xs. fetch_fails E (b @ k) \<or> fetch_succeeds E (b @ k)"
    and "\<forall>i' n' k'. Skip_line i' n' k' \<notin> set (stdout (snd (loop E g b n i xs st)))"
  shows "fst (loop E g b n i xs st) = None
       \<and> requests (snd (loop E g b n i xs st)) = requests st @ map (\<lambda>(k, c). b @ k) xs
       \<and> success_count (snd (loop E g b n i xs st))
           = success_count st + length (filter (\<lambda>(k, c). fetch_succeeds E (b @ k)) xs)
       \<and> (\<forall>(k, c) \<in> set xs. fetch_succeeds E (b @ k) \<longrightarrow>
             filepath c \<in> dom (file_content (disk (snd (loop E g b n i xs st)))))"
  using assms
proof (induction xs arbitrary: i st)
  case Nil
  show ?case by simp
next
  case (Cons x xs)
  obtain k c where x: "x = (k, c)" by (cases x)
  let ?st = "snd (loop_body E g b n i x st)"
  have "Skip_line i n k \<notin> set (stdout ?st)"
    using Cons.prems(3) loop_Cons_stdout[of E g b n i x st xs] by blast
  with Cons.prems(1,2) have body:
    "fst (loop_body E g b n i x st) = None"
    "requests ?st = requests st @ [b @ k]"
    "if fetch_succeeds E (b @ k)
     then success_count ?st = success_count st + 1
        \<and> (\<exists>r. get E (b @ k) = Inr r
              \<and> file_content (disk ?st) = (file_content (disk st))(filepath c \<mapsto> content r))
     else success_count ?st = success_count st \<and> file_content (disk ?st) = file_content (disk st)"
    using loop_body_attempt[of E c b k i n g st] unfolding x by simp_all
  note eq = loop_continue[OF body(1), of xs]
  have eq': "loop E g b n i ((k, c) # xs) st
      = loop E g b n (Suc i) xs (snd (loop_body E g b n i (k, c) st))"
    using eq unfolding x .
  have p1: "\<forall>(k, c) \<in> set xs. \<not> mkdir_fault E (directory c) \<and> \<not> open_fault E (filepath c)"
    using Cons.prems(1) by simp
  have p2: "\<forall>(k, c) \<in> set xs. fetch_fails E (b @ k) \<or> fetch_succeeds E (b @ k)"
    using Cons.prems(2) by simp
  have p3: "\<forall>i' n' k'. Skip_line i' n' k' \<notin> set (stdout (snd (loop E g b n (Suc i) xs ?st)))"
    using Cons.prems(3) unfolding eq .
  note IH = Cons.IH[OF p1 p2 p3]
  have "fetch_succeeds E (b @ k) \<Longrightarrow> filepath c \<in> dom (file_content (disk ?st))"
    using body(3) by auto
  then have head: "fetch_succeeds E (b @ k) \<Longrightarrow>
      filepath c \<in> dom (file_content (disk (snd (loop E g b n (Suc i) xs ?st))))"
    using loop_dom_mono[of ?st E g b n "Suc i" xs] by blast
  have count: "success_count ?st = success_count st + (if fetch_succeeds E (b @ k) then 1 else 0)"
    using body(3) by (simp split: if_splits)
  from IH body(2) count head show ?case
    unfolding x eq' by (auto simp del: loop.simps)
qed

lemma loop_contents:
  assumes "\<forall>(k, c) \<in> set xs. \<not> mkdir_fault E (directory c) \<and> \<not> open_fault E (filepath c)"
    and "\<forall>(k, c) \<in> set xs. fetch_fails E (b @ k) \<or> fetch_succeeds E (b @ k)"
    and "\<forall>i' n' k'. Skip_line i' n' k' \<notin> set (stdout (snd (loop E g b n i xs st)))"
    and "distinct (map (\<lambda>(k, c). filepath c) xs)"
  shows "\<forall>(k, c) \<in> set xs.
           (if fetch_succeeds E (b @ k)
            then \<exists>r. get E (b @ k) = Inr r
                   \<and> file_content (disk (snd (loop E g b n i xs st))) (filepath c) = Some (content r)
            else file_content (disk (snd (loop E g b n i xs st))) (filepath c)
                   = file_content (disk st) (filepath c))"
  using assms
proof (induction xs arbitrary: i st)
  case Nil
  show ?case by simp
next
  case (Cons x xs)
  obtain k c where x: "x = (k, c)" by (cases x)
  let ?st = "snd (loop_body E g b n i x st)"
  have "Skip_line i n k \<notin> set (stdout ?st)"
    using Cons.prems(3) loop_Cons_stdout[of E g b n i x st xs] by blast
  with Cons.prems(1,2) have body:
    "fst (loop_body E g b n i x st) = None"
    "if fetch_succeeds E (b @ k)
     then \<exists>r. get E (b @ k) = Inr r
              \<and> file_content (disk ?st) = (file_content (disk st))(filepath c \<mapsto> content r)
     else file_content (disk ?st) = file_content (disk st)"
    using loop_body_attempt[of E c b k i n g st] unfolding x by (simp_all split: if_splits)
  note eq = loop_continue[OF body(1), of xs]
  have eq': "loop E g b n i ((k, c) # xs) st
      = loop E g b n (Suc i) xs (snd (loop_body E g b n i (k, c) st))"
    using eq unfolding x .
  have p1: "\<forall>(k, c) \<in> set xs. \<not> mkdir_fault E (directory c) \<and> \<not> open_fault E (filepath c)"
    using Cons.prems(1) by simp
  have p2: "\<forall>(k, c) \<in> set xs. fetch_fails E (b @ k) \<or> fetch_succeeds E (b @ k)"
    using Cons.prems(2) by simp
  have p3: "\<forall>i' n' k'. Skip_line i' n' k' \<notin> set (stdout (snd (loop E g b n (Suc i) xs ?st)))"
    using Cons.prems(3) unfolding eq .
  have p4: "distinct (map (\<lambda>(k, c). filepath c) xs)"
    using Cons.prems(4) by simp
  note IH = Cons.IH[OF p1 p2 p3 p4]
  have others: "\<forall>(k', c') \<in> set xs. filepath c' \<noteq> filepath c"
    using Cons.prems(4) unfolding x by force
  have tail_keeps: "file_content (disk (snd (loop E g b n (Suc i) xs ?st))) (filepath c)
      = file_content (disk ?st) (filepath c)"
    using others by (rule loop_file_other)
  have head: "if fetch_succeeds E (b @ k)
            then \<exists>r. get E (b @ k) = Inr r
                   \<and> file_content (disk (snd (loop E g b n (Suc i) xs ?st))) (filepath c) = Some (content r)
            else file_content (disk (snd (loop E g b n (Suc i) xs ?st))) (filepath c)
                   = file_content (disk st) (filepath c)"
    using body(2) tail_keeps by (auto split: if_splits)
  have untouched: "\<forall>(k', c') \<in> set xs.
      file_content (disk ?st) (filepath c') = file_content (disk st) (filepath c')"
    using others loop_body_file_other[of c _ E g b n i k st] unfolding x by auto
  have tail: "\<forall>(k', c') \<in> set xs.
           (if fetch_succeeds E (b @ k')
            then \<exists>r. get E (b @ k') = Inr r
                   \<and> file_content (disk (snd (loop E g b n (Suc i) xs ?st))) (filepath c') = Some (content r)
            else file_content (disk (snd (loop E g b n (Suc i) xs ?st))) (filepath c')
                   = file_content (disk st) (filepath c'))"
  proof -
    have "if fetch_succeeds E (b @ k')
            then \<exists>r. get E (b @ k') = Inr r
                   \<and> file_content (disk (snd (loop E g b n (Suc i) xs ?st))) (filepath c') = Some (content r)
            else file_content (disk (snd (loop E g b n (Suc i) xs ?st))) (filepath c')
                   = file_content (disk st) (filepath c')"
      if m: "(k', c') \<in> set xs" for k' c'
    proof -
      from IH m have a: "if fetch_succeeds E (b @ k')
            then \<exists>r. get E (b @ k') = Inr r
                   \<and> file_content (disk (snd (loop E g b n (Suc i) xs ?st))) (filepath c') = Some (content r)
            else file_content (disk (snd (loop E g b n (Suc i) xs ?st))) (filepath c')
                   = file_content (disk ?st) (filepath c')"
        by blast
      from untouched m
      have "file_content (disk ?st) (filepath c') = file_content (disk st) (filepath c')"
        by blast
      with a show ?thesis by (simp split: if_splits)
    qed
    then show ?thesis by blast
  qed
  from head tail show ?case
    unfolding x eq' by (simp del: loop.simps)
qed

lemma all_but_one:
  assumes "K < length xs" "\<not> P (xs ! K)" "\<forall>j < length xs. j \<noteq> K \<longrightarrow> P (xs ! j)"
  shows "length (filter P xs) = length xs - 1"
proof -
  have xs: "xs = take K xs @ xs ! K # drop (Suc K) xs"
    using assms(1) by (rule id_take_nth_drop)
  have 1: "filter P (take K xs) = take K xs"
    using assms by (auto simp: filter_id_conv in_set_conv_nth)
  have 2: "filter P (drop (Suc K) xs) = drop (Suc K) xs"
    using assms by (auto simp: filter_id_conv in_set_conv_nth)
  have "length (filter P xs) = length (filter P (take K xs @ xs ! K # drop (Suc K) xs))"
    using xs by simp
  also have "\<dots> = length (take K xs) + length (drop (Suc K) xs)"
    using assms(2) 1 2 by simp
  also have "\<dots> = length xs - 1"
    using assms(1) by simp
  finally show ?thesis .
qed


lemma download_fst:
  "fst (download_geojson_files E g b cat d)
     = fst (loop E g b (length (filter (\<lambda>(k, v). download v) cat)) 1
                    (filter (\<lambda>(k, v). download v) cat)
                    (initial_state d (length (filter (\<lambda>(k, v). download v) cat))))"
  by (simp add: download_geojson_files_def Let_def split: prod.splits option.splits)

lemma download_success_count:
  "success_count (snd (download_geojson_files E g b cat d))
     = success_count (snd (loop E g b (length (filter (\<lambda>(k, v). download v) cat)) 1
                    (filter (\<lambda>(k, v). download v) cat)
                    (initial_state d (length (filter (\<lambda>(k, v). download v) cat)))))"
  by (simp add: download_geojson_files_def Let_def say_def split: prod.splits option.splits)

lemma download_stdout:
  "set (stdout (snd (loop E g b (length (filter (\<lambda>(k, v). download v) cat)) 1
                    (filter (\<lambda>(k, v). download v) cat)
                    (initial_state d (length (filter (\<lambda>(k, v). download v) cat))))))
     \<subseteq> set (stdout (snd (download_geojson_files E g b cat d)))"
  by (auto simp add: download_geojson_files_def Let_def say_def split: prod.splits option.splits)

lemma fetch_fails_not_succeeds: "fetch_fails E u \<Longrightarrow> \<not> fetch_succeeds E u"
  by (auto simp: fetch_fails_def fetch_succeeds_def split: sum.splits)

text \<open>
  Claim C5. Take a run in which no entry is skipped, the fetch of the enabled entry number
  \<open>K\<close> fails and the fetch of every other enabled entry succeeds, with a file system that
  refuses no directory and no destination of the catalog. Then the run reaches its end;
  every enabled entry is requested, in catalog order; the count of successes is the number
  of enabled entries less one; and the destination of every entry but the \<open>K\<close>-th is a file
  afterwards. When the destinations are pairwise distinct, each of these files holds the
  body of the response to its own entry, and the destination of the \<open>K\<close>-th entry is as it
  was before the run.
\<close>

theorem single_failure_does_not_stop_the_run:
  assumes "files_to_download = filter (\<lambda>(k, v). download v) geojson_files"
    and "K < length files_to_download"
    and "fetch_fails E (b @ fst (files_to_download ! K))"
    and "\<forall>j < length files_to_download. j \<noteq> K \<longrightarrow>
           fetch_succeeds E (b @ fst (files_to_download ! j))"
    and "\<forall>(k, c) \<in> set files_to_download.
           \<not> mkdir_fault E (directory c) \<and> \<not> open_fault E (filepath c)"
    and "\<forall>i n k. Skip_line i n k
           \<notin> set (stdout (snd (download_geojson_files E g b geojson_files d)))"
  shows "fst (download_geojson_files E g b geojson_files d) = None
       \<and> requests (snd (download_geojson_files E g b geojson_files d))
           = map (\<lambda>(k, c). b @ k) files_to_download
       \<and> success_count (snd (download_geojson_files E g b geojson_files d))
           = length files_to_download - 1
       \<and> (\<forall>j < length files_to_download. j \<noteq> K \<longrightarrow>
             filepath (snd (files_to_download ! j))
               \<in> dom (file_content (disk (snd (download_geojson_files E g b geojson_files d)))))
       \<and> (distinct (map (\<lambda>(k, c). filepath c) files_to_download) \<longrightarrow>
             (\<forall>j < length files_to_download. j \<noteq> K \<longrightarrow>
                (\<exists>r. get E (b @ fst (files_to_download ! j)) = Inr r
                   \<and> file_content (disk (snd (download_geojson_files E g b geojson_files d)))
                        (filepath (snd (files_to_download ! j))) = Some (content r)))
           \<and> file_content (disk (snd (download_geojson_files E g b geojson_files d)))
                 (filepath (snd (files_to_download ! K)))
               = file_content d (filepath (snd (files_to_download ! K))))"
proof -
  define ftd where "ftd = files_to_download"
  define N where "N = length ftd"
  define st0 where "st0 = initial_state d N"
  let ?L = "loop E g b N 1 ftd st0"
  let ?D = "download_geojson_files E g b geojson_files d"
  let ?P = "\<lambda>(k, c). fetch_succeeds E (b @ k)"
  have ftd: "ftd = filter (\<lambda>(k, v). download v) geojson_files"
    using assms(1) by (simp add: ftd_def)
  have fstD: "fst ?D = fst ?L" and reqD: "requests (snd ?D) = requests (snd ?L)"
    and cntD: "success_count (snd ?D) = success_count (snd ?L)"
    and diskD: "disk (snd ?D) = disk (snd ?L)"
    and outD: "set (stdout (snd ?L)) \<subseteq> set (stdout (snd ?D))"
    unfolding ftd N_def st0_def
    by (rule download_fst download_requests download_success_count download_disk
          download_stdout)+
  have K: "K < length ftd" and failK: "fetch_fails E (b @ fst (ftd ! K))"
    and okj: "\<And>j. j < length ftd \<Longrightarrow> j \<noteq> K \<Longrightarrow> fetch_succeeds E (b @ fst (ftd ! j))"
    using assms(2,3,4) by (simp_all add: ftd_def)
  have h1: "\<forall>(k, c) \<in> set ftd. \<not> mkdir_fault E (directory c) \<and> \<not> open_fault E (filepath c)"
    using assms(5) by (simp add: ftd_def)
  have h2: "\<forall>(k, c) \<in> set ftd. fetch_fails E (b @ k) \<or> fetch_succeeds E (b @ k)"
  proof (clarify)
    fix k c assume "(k, c) \<in> set ftd" "\<not> fetch_succeeds E (b @ k)"
    then obtain j where j: "j < length ftd" "ftd ! j = (k, c)"
      by (auto simp: in_set_conv_nth)
    with okj[of j] \<open>\<not> fetch_succeeds E (b @ k)\<close> have "j = K" by auto
    with failK j show "fetch_fails E (b @ k)" by simp
  qed
  have h3: "\<forall>i' n' k'. Skip_line i' n' k' \<notin> set (stdout (snd ?L))"
    using assms(6) outD by blast
  note A = loop_all_attempted[OF h1 h2 h3]
  have notK: "\<not> ?P (ftd ! K)"
    using fetch_fails_not_succeeds[OF failK] by (simp add: case_prod_beta)
  have others: "\<forall>j < length ftd. j \<noteq> K \<longrightarrow> ?P (ftd ! j)"
    using okj by (simp add: case_prod_beta)
  have count: "length (filter ?P ftd) = length ftd - 1"
    using K notK others by (rule all_but_one)
  have c1: "fst ?D = None"
    using A fstD by simp
  have c2: "requests (snd ?D) = map (\<lambda>(k, c). b @ k) ftd"
    using A reqD by (simp add: st0_def initial_state_def)
  have c3: "success_count (snd ?D) = length ftd - 1"
    using A cntD count by (simp add: st0_def initial_state_def)
  have c4: "filepath (snd (ftd ! j)) \<in> dom (file_content (disk (snd ?D)))"
    if j: "j < length ftd" "j \<noteq> K" for j
  proof -
    obtain k c where kc: "ftd ! j = (k, c)" by (cases "ftd ! j")
    with j have "(k, c) \<in> set ftd" by (metis nth_mem)
    moreover have "fetch_succeeds E (b @ k)" using okj[OF j] kc by simp
    ultimately have "filepath c \<in> dom (file_content (disk (snd ?L)))"
      using A by blast
    then show ?thesis by (simp add: diskD kc)
  qed
  have c5: "(\<forall>j < length ftd. j \<noteq> K \<longrightarrow>
                (\<exists>r. get E (b @ fst (ftd ! j)) = Inr r
                   \<and> file_content (disk (snd ?D)) (filepath (snd (ftd ! j))) = Some (content r)))
           \<and> file_content (disk (snd ?D)) (filepath (snd (ftd ! K)))
               = file_content d (filepath (snd (ftd ! K)))"
    if dist: "distinct (map (\<lambda>(k, c). filepath c) ftd)"
  proof -
    note B = loop_contents[OF h1 h2 h3 dist]
    have each: "if fetch_succeeds E (b @ fst (ftd ! j))
            then \<exists>r. get E (b @ fst (ftd ! j)) = Inr r
                   \<and> file_content (disk (snd ?L)) (filepath (snd (ftd ! j))) = Some (content r)
            else file_content (disk (snd ?L)) (filepath (snd (ftd ! j)))
                   = file_content (disk st0) (filepath (snd (ftd ! j)))"
      if "j < length ftd" for j
    proof -
      obtain k c where kc: "ftd ! j = (k, c)" by (cases "ftd ! j")
      with that have "(k, c) \<in> set ftd" by (metis nth_mem)
      with B show ?thesis unfolding kc by auto
    qed
    have "file_content (disk (snd ?D)) (filepath (snd (ftd ! K)))
               = file_content d (filepath (snd (ftd ! K)))"
      using each[OF K] fetch_fails_not_succeeds[OF failK]
      by (simp add: diskD st0_def initial_state_def)
    moreover have "\<exists>r. get E (b @ fst (ftd ! j)) = Inr r
                   \<and> file_content (disk (snd ?D)) (filepath (snd (ftd ! j))) = Some (content r)"
      if "j < length ftd" "j \<noteq> K" for j
      using each[OF that(1)] okj[OF that] by (simp add: diskD)
    ultimately show ?thesis by blast
  qed
  from c1 c2 c3 c4 c5 show ?thesis
    unfolding ftd_def by blast
qed

theorem single_failure_does_not_stop_the_run_witness:
  "three_entries = filter (\<lambda>(k, v). download v) three_entries
   \<and> 1 < length three_entries
   \<and> fetch_fails env_b_fails (''http://host/'' @ fst (three_entries ! 1))
   \<and> fetch_succeeds env_b_fails (''http://host/'' @ fst (three_entries ! 0))
   \<and> fetch_succeeds env_b_fails (''http://host/'' @ fst (three_entries ! 2))
   \<and> (\<forall>i n k. Skip_line i n k
         \<notin> set (stdout (snd (download_geojson_files env_b_fails True ''http://host/'' three_entries empty_disk))))
   \<and> fst (download_geojson_files env_b_fails True ''http://host/'' three_entries empty_disk) = None
   \<and> requests (snd (download_geojson_files env_b_fails True ''http://host/'' three_entries empty_disk))
       = [''http://host/a.geojson'', ''http://host/b.geojson'', ''http://host/c.geojson'']
   \<and> success_count (snd (download_geojson_files env_b_fails True ''http://host/'' three_entries empty_disk))
       = 2"
proof -
  have 1: "three_entries = filter (\<lambda>(k, v). download v) three_entries"
    by (simp add: three_entries_def enabled_entry_def)
  have 2: "1 < length three_entries"
    by (simp add: three_entries_def)
  have 3: "fetch_fails env_b_fails (''http://host/'' @ fst (three_entries ! 1))"
    by (simp add: three_entries_def fetch_fails_def env_b_fails_def)
  have 4: "\<forall>j < length three_entries. j \<noteq> 1 \<longrightarrow>
         fetch_succeeds env_b_fails (''http://host/'' @ fst (three_entries ! j))"
    by (auto simp: three_entries_def fetch_succeeds_def env_b_fails_def raise_for_status_def
        less_Suc_eq numeral_3_eq_3)
  have 5: "\<forall>(k, c) \<in> set three_entries.
         \<not> mkdir_fault env_b_fails (directory c) \<and> \<not> open_fault env_b_fails (filepath c)"
    by (simp add: three_entries_def env_b_fails_def)
  have 6: "\<forall>i n k. Skip_line i n k
         \<notin> set (stdout (snd (download_geojson_files env_b_fails True ''http://host/'' three_entries empty_disk)))"
    by (simp add: run_defs three_entries_def enabled_entry_def env_b_fails_def empty_disk_def Let_def)
  from single_failure_does_not_stop_the_run[OF 1 2 3 4 5 6]
  have "fst (download_geojson_files env_b_fails True ''http://host/'' three_entries empty_disk) = None"
    and "requests (snd (download_geojson_files env_b_fails True ''http://host/'' three_entries empty_disk))
       = map (\<lambda>(k, c). ''http://host/'' @ k) three_entries"
    and "success_count (snd (download_geojson_files env_b_fails True ''http://host/'' three_entries empty_disk))
       = length three_entries - 1"
    by blast+
  moreover have "map (\<lambda>(k, c). ''http://host/'' @ k) three_entries
      = [''http://host/a.geojson'', ''http://host/b.geojson'', ''http://host/c.geojson'']"
    by (simp add: three_entries_def)
  moreover have "length three_entries - 1 = 2"
    by (simp add: three_entries_def)
  moreover have "fetch_succeeds env_b_fails (''http://host/'' @ fst (three_entries ! 0))"
    and "fetch_succeeds env_b_fails (''http://host/'' @ fst (three_entries ! 2))"
    by (simp_all add: three_entries_def fetch_succeeds_def env_b_fails_def raise_for_status_def)
  ultimately show ?thesis
    using 1 2 3 6 by simp
qed

section \<open>The index generator: what the walk collects\<close>

lemma scan_append: "scan (a @ b) = scan a @ scan b"
  by (simp add: scan_def)

lemma scan_Cons: "scan ((p, ds, names) # rest) =
    map (\<lambda>file. record_of (p, file)) (filter (\<lambda>file. endswith file ''.geojson'') names) @ scan rest"
  by (simp add: scan_def record_of_def os_path_relpath_def)

lemma geojson_records_append: "geojson_records (a @ b) = geojson_records a @ geojson_records b"
  by (simp add: geojson_records_def)

lemma direct_and_sub:
  "mset (geojson_records (concat (map (tree_files p) es))) =
     mset (map (\<lambda>file. record_of (p, file))
              (filter (\<lambda>file. endswith file ''.geojson'') (map node_name (filter is_file es))))
     + mset (geojson_records (concat (map (tree_files p) (filter (\<lambda>e. \<not> is_file e) es))))"
proof (induction es)
  case Nil
  show ?case by (simp add: geojson_records_def)
next
  case (Cons e es)
  show ?case
  proof (cases e)
    case (File name)
    with Cons show ?thesis
      by (simp add: geojson_records_def)
  next
    case (Directory name sub)
    with Cons show ?thesis
      by (simp add: geojson_records_def)
  qed
qed

lemma walk_tree_files:
  "mset (scan (walk p es)) = mset (geojson_records (concat (map (tree_files p) es)))"
  "mset (scan (walk_subdirs p es)) =
     mset (geojson_records (concat (map (tree_files p) (filter (\<lambda>e. \<not> is_file e) es))))"
proof (induction p es and p es rule: walk_walk_subdirs.induct)
  case (1 path entries)
  have "mset (scan (walk path entries)) =
     mset (map (\<lambda>file. record_of (path, file))
              (filter (\<lambda>file. endswith file ''.geojson'') (map node_name (filter is_file entries))))
     + mset (scan (walk_subdirs path entries))"
    by (simp add: scan_Cons)
  also have "\<dots> = mset (geojson_records (concat (map (tree_files path) entries)))"
    unfolding "1.IH" direct_and_sub[of path entries] ..
  finally show ?case .
next
  case (2 path)
  show ?case by (simp add: scan_def geojson_records_def)
next
  case (3 path name rest)
  then show ?case by simp
next
  case (4 path name entries rest)
  have "mset (scan (walk_subdirs path (Directory name entries # rest))) =
      mset (scan (walk (os_path_join path name) entries)) + mset (scan (walk_subdirs path rest))"
    by (simp add: scan_append del: walk.simps)
  also have "\<dots> = mset (geojson_records (concat (map (tree_files (os_path_join path name)) entries)))
      + mset (geojson_records (concat (map (tree_files path) (filter (\<lambda>e. \<not> is_file e) rest))))"
    unfolding "4.IH" ..
  also have "\<dots> = mset (geojson_records (concat (map (tree_files path)
       (filter (\<lambda>e. \<not> is_file e) (Directory name entries # rest)))))"
    by (simp add: geojson_records_append)
  finally show ?case .
qed


lemma sorted_scan:
  assumes "lookup cwd features_root = Some (Directory name entries)"
  shows "mset (sort_key filename (scan (os_walk cwd features_root)))
       = mset (geojson_records (concat (map (tree_files features_root) entries)))"
  using assms by (simp add: os_walk_def walk_tree_files(1) del: walk.simps)

lemma written_document:
  assumes "lookup cwd features_root = Some (Directory name entries)"
  shows "written (generate_index_html now True cwd)
       = Some (document now (sort_key filename (scan (os_walk cwd features_root))))"
  using assms by (simp add: generate_index_html_def Let_def)

lemma document_split:
  \<open>\<exists>before after. document now (xs @ r # ys) =
      before @ ''<li><a href="'' @ url r @ ''">'' @ filename r @ ''</a></li>\<newline>'' @ after\<close>
proof -
  have \<open>document now (xs @ r # ys) =
      (''<html>\<newline><head>\<newline><title>Natural Earth GeoJSON Files</title>\<newline></head>\<newline><body>\<newline>''
       @ ''<h1>Natural Earth GeoJSON Files</h1>\<newline><p>Generated: '' @ now @ ''</p>\<newline>''
       @ ''<p>Total files: '' @ str_nat (length (xs @ r # ys)) @ ''</p>\<newline><hr>\<newline><ul>\<newline>''
       @ concat (map list_item xs))
      @ ''<li><a href="'' @ url r @ ''">'' @ filename r @ ''</a></li>\<newline>''
      @ (concat (map list_item ys) @ ''</ul>\<newline></body>\<newline></html>'')\<close>
    by (simp add: document_def list_item_def)
  then show ?thesis by blast
qed

lemma endswith_iff: "endswith s suf \<longleftrightarrow> (\<exists>stem. s = stem @ suf)"
proof
  assume e: "endswith s suf"
  then have "s = take (length s - length suf) s @ suf"
    by (metis append_take_drop_id endswith_def)
  then show "\<exists>stem. s = stem @ suf" ..
next
  assume "\<exists>stem. s = stem @ suf"
  then show "endswith s suf" by (auto simp: endswith_def)
qed

lemma geojson_records_explicit:
  "geojson_records fs =
     map (\<lambda>(dir, file).
            \<lparr>filename = file,
             url = ''https://dvanauken.github.io/data'' @ ''/''
                   @ map (\<lambda>c. if c = CHR 0x5C then CHR ''/'' else c) (os_path_join dir file)\<rparr>)
         (filter (\<lambda>(dir, file). \<exists>stem. file = stem @ ''.geojson'') fs)"
proof -
  have 1: "(\<lambda>f. endswith (snd f) ''.geojson'') = (\<lambda>(dir, file). \<exists>stem. file = stem @ ''.geojson'')"
    by (auto simp: endswith_iff fun_eq_iff)
  have 2: "record_of = (\<lambda>(dir, file).
            \<lparr>filename = file,
             url = ''https://dvanauken.github.io/data'' @ ''/''
                   @ map (\<lambda>c. if c = CHR 0x5C then CHR ''/'' else c) (os_path_join dir file)\<rparr>)"
    by (auto simp: record_of_def fun_eq_iff base_github_url_def replace_backslash_def)
  show ?thesis
    unfolding geojson_records_def 1 2 ..
qed

section \<open>The index generator: the document\<close>

text \<open>
  The document for the three files \<^verbatim>\<open>a.geojson\<close>, \<^verbatim>\<open>B.geojson\<close> and \<^verbatim>\<open>c.txt\<close>, character
  by character: two list items, \<^verbatim>\<open>B.geojson\<close> first.
\<close>

lemma three_files_document:
  \<open>written (generate_index_html ''2024-05-01 12:00:00'' True cwd_three_files) = Some
    (''<html>\<newline><head>\<newline><title>Natural Earth GeoJSON Files</title>\<newline></head>\<newline><body>\<newline>''
     @ ''<h1>Natural Earth GeoJSON Files</h1>\<newline><p>Generated: 2024-05-01 12:00:00</p>\<newline>''
     @ ''<p>Total files: 2</p>\<newline><hr>\<newline><ul>\<newline>''
     @ ''<li><a href="https://dvanauken.github.io/data/features/B.geojson">B.geojson</a></li>\<newline>''
     @ ''<li><a href="https://dvanauken.github.io/data/features/a.geojson">a.geojson</a></li>\<newline>''
     @ ''</ul>\<newline></body>\<newline></html>'')\<close>
  by code_simp

text \<open>
  Claim C7: when \<^verbatim>\<open>features\<close> is a directory, the text written to \<^verbatim>\<open>index.html\<close> is the
  fixed head of the document, then one line \<^verbatim>\<open><li><a href="URL">NAME</a></li>\<close> for each
  record of a list of records, in the order of that list, then the fixed tail. The list is
  sorted by file name under the character-code order of strings (an upper-case letter comes
  before a lower-case one), and its records are, counted with multiplicity, exactly those
  of the files of the tree whose name ends in \<^verbatim>\<open>.geojson\<close>: one list item for each such
  file, none for any other file. The URL of a record is the base URL, a slash and the path
  of the file below the working directory, with every backslash turned into a slash.
\<close>

theorem index_lists_geojson_files:
  assumes "lookup cwd features_root = Some (Directory name entries)"
  shows \<open>\<exists>items.
      written (generate_index_html now True cwd) = Some
        (''<html>\<newline><head>\<newline><title>Natural Earth GeoJSON Files</title>\<newline></head>\<newline><body>\<newline>''
         @ ''<h1>Natural Earth GeoJSON Files</h1>\<newline><p>Generated: '' @ now @ ''</p>\<newline>''
         @ ''<p>Total files: '' @ str_nat (length items) @ ''</p>\<newline><hr>\<newline><ul>\<newline>''
         @ concat (map (\<lambda>r. ''<li><a href="'' @ url r @ ''">'' @ filename r @ ''</a></li>\<newline>'')
                       items)
         @ ''</ul>\<newline></body>\<newline></html>'')
    \<and> sorted (map filename items)
    \<and> mset items =
        mset (map (\<lambda>(dir, file).
                     \<lparr>filename = file,
                      url = ''https://dvanauken.github.io/data'' @ ''/''
                            @ map (\<lambda>c. if c = CHR 0x5C then CHR ''/'' else c)
                                  (os_path_join dir file)\<rparr>)
                  (filter (\<lambda>(dir, file). \<exists>stem. file = stem @ ''.geojson'')
                          (concat (map (tree_files ''features'') entries))))\<close>
proof -
  let ?items = "sort_key filename (scan (os_walk cwd features_root))"
  have s: "sorted (map filename ?items)" by (rule sorted_sort_key)
  have m: "mset ?items = mset (geojson_records (concat (map (tree_files ''features'') entries)))"
    using sorted_scan[OF assms] by (simp add: features_root_def)
  have li: "list_item = (\<lambda>r. ''<li><a href=\"'' @ url r @ ''\">'' @ filename r @ ''</a></li>\<newline>'')"
    by (simp add: list_item_def fun_eq_iff)
  have w: \<open>written (generate_index_html now True cwd) = Some
        (''<html>\<newline><head>\<newline><title>Natural Earth GeoJSON Files</title>\<newline></head>\<newline><body>\<newline>''
         @ ''<h1>Natural Earth GeoJSON Files</h1>\<newline><p>Generated: '' @ now @ ''</p>\<newline>''
         @ ''<p>Total files: '' @ str_nat (length ?items) @ ''</p>\<newline><hr>\<newline><ul>\<newline>''
         @ concat (map (\<lambda>r. ''<li><a href="'' @ url r @ ''">'' @ filename r @ ''</a></li>\<newline>'')
                       ?items)
         @ ''</ul>\<newline></body>\<newline></html>'')\<close>
    unfolding written_document[OF assms] document_def li by simp
  from w s m show ?thesis
    unfolding geojson_records_explicit by blast
qed

theorem index_lists_geojson_files_witness:
  \<open>lookup cwd_three_files features_root = Some (Directory ''features'' three_files)
   \<and> ''B.geojson'' < ''a.geojson''
   \<and> written (generate_index_html ''2024-05-01 12:00:00'' True cwd_three_files) = Some
        (''<html>\<newline><head>\<newline><title>Natural Earth GeoJSON Files</title>\<newline></head>\<newline><body>\<newline>''
         @ ''<h1>Natural Earth GeoJSON Files</h1>\<newline><p>Generated: 2024-05-01 12:00:00</p>\<newline>''
         @ ''<p>Total files: 2</p>\<newline><hr>\<newline><ul>\<newline>''
         @ ''<li><a href="https://dvanauken.github.io/data/features/B.geojson">B.geojson</a></li>\<newline>''
         @ ''<li><a href="https://dvanauken.github.io/data/features/a.geojson">a.geojson</a></li>\<newline>''
         @ ''</ul>\<newline></body>\<newline></html>'')
   \<and> (\<exists>items.
        written (generate_index_html ''2024-05-01 12:00:00'' True cwd_three_files) = Some
          (''<html>\<newline><head>\<newline><title>Natural Earth GeoJSON Files</title>\<newline></head>\<newline><body>\<newline>''
           @ ''<h1>Natural Earth GeoJSON Files</h1>\<newline><p>Generated: '' @ ''2024-05-01 12:00:00'' @ ''</p>\<newline>''
           @ ''<p>Total files: '' @ str_nat (length items) @ ''</p>\<newline><hr>\<newline><ul>\<newline>''
           @ concat (map (\<lambda>r. ''<li><a href="'' @ url r @ ''">'' @ filename r @ ''</a></li>\<newline>'')
                         items)
           @ ''</ul>\<newline></body>\<newline></html>'')
      \<and> sorted (map filename items)
      \<and> mset items =
          {#\<lparr>filename = ''a.geojson'', url = ''https://dvanauken.github.io/data/features/a.geojson''\<rparr>,
            \<lparr>filename = ''B.geojson'', url = ''https://dvanauken.github.io/data/features/B.geojson''\<rparr>#})\<close>
proof -
  have l: "lookup cwd_three_files features_root = Some (Directory ''features'' three_files)"
    by (simp add: lookup_def cwd_three_files_def features_root_def)
  have o: "''B.geojson'' < ''a.geojson''"
    by (simp add: less_char_def)
  have r: "map (\<lambda>(dir, file).
                     \<lparr>filename = file,
                      url = ''https://dvanauken.github.io/data'' @ ''/''
                            @ map (\<lambda>c. if c = CHR 0x5C then CHR ''/'' else c)
                                  (os_path_join dir file)\<rparr>)
                  (filter (\<lambda>(dir, file). \<exists>stem. file = stem @ ''.geojson'')
                          (concat (map (tree_files ''features'') three_files)))
      = [\<lparr>filename = ''a.geojson'', url = ''https://dvanauken.github.io/data/features/a.geojson''\<rparr>,
         \<lparr>filename = ''B.geojson'', url = ''https://dvanauken.github.io/data/features/B.geojson''\<rparr>]"
    unfolding geojson_records_explicit[symmetric]
    by (simp add: geojson_records_def three_files_def record_of_def endswith_def
        base_github_url_def replace_backslash_def os_path_join_def)
  note three_files_document
  moreover note index_lists_geojson_files[OF l, of "''2024-05-01 12:00:00''", unfolded r]
  ultimately show ?thesis
    using l o by simp
qed



text \<open>
  Claim C10: nothing is escaped. For every file of the tree whose name ends in
  \<^verbatim>\<open>.geojson\<close>, the document contains the line made of the fixed markup, the URL and the
  file name as they are; a name with the characters \<^verbatim>\<open><\<close>, \<^verbatim>\<open>>\<close>, \<^verbatim>\<open>&\<close> and the double quote
  appears in the document unchanged.
\<close>

theorem list_item_verbatim:
  assumes "lookup cwd features_root = Some (Directory name entries)"
    and "(dir, file) \<in> set (concat (map (tree_files features_root) entries))"
    and "endswith file ''.geojson''"
  shows \<open>\<exists>before after. written (generate_index_html now True cwd) =
           Some (before @ ''<li><a href="'' @ base_github_url @ ''/''
                   @ replace_backslash (os_path_join dir file) @ ''">'' @ file
                   @ ''</a></li>\<newline>'' @ after)\<close>
proof -
  let ?items = "sort_key filename (scan (os_walk cwd features_root))"
  let ?r = "record_of (dir, file)"
  have "?r \<in> set (geojson_records (concat (map (tree_files features_root) entries)))"
    using assms(2,3) by (force simp: geojson_records_def)
  then have "?r \<in> set ?items"
    using sorted_scan[OF assms(1)] by (metis set_mset_mset)
  then obtain xs ys where "?items = xs @ ?r # ys"
    by (meson split_list)
  then obtain before after where "document now ?items =
      before @ ''<li><a href=\"'' @ url ?r @ ''\">'' @ filename ?r @ ''</a></li>\<newline>'' @ after"
    using document_split[of now xs ?r ys] by auto
  then show ?thesis
    using written_document[OF assms(1), of now] by (auto simp: record_of_def)
qed

theorem list_item_verbatim_witness:
  \<open>lookup cwd_metachar features_root = Some (Directory ''features'' metachar_files)
   \<and> (''features/sub'', ''<b>&"x".geojson'') \<in> set (concat (map (tree_files features_root) metachar_files))
   \<and> endswith ''<b>&"x".geojson'' ''.geojson''
   \<and> (\<exists>before after. written (generate_index_html ''2024-05-01 12:00:00'' True cwd_metachar) =
           Some (before
             @ ''<li><a href="https://dvanauken.github.io/data/features/sub/<b>&"x".geojson"><b>&"x".geojson</a></li>\<newline>''
             @ after))\<close>
proof -
  have l: "lookup cwd_metachar features_root = Some (Directory ''features'' metachar_files)"
    by (simp add: lookup_def cwd_metachar_def features_root_def)
  have m: \<open>(''features/sub'', ''<b>&"x".geojson'') \<in> set (concat (map (tree_files features_root) metachar_files))\<close>
    by (simp add: metachar_files_def features_root_def os_path_join_def)
  have e: \<open>endswith ''<b>&"x".geojson'' ''.geojson''\<close>
    by (simp add: endswith_def)
  from list_item_verbatim[OF l m e, of "''2024-05-01 12:00:00''"] l m e show ?thesis
    by (simp add: base_github_url_def replace_backslash_def os_path_join_def)
qed

end
